theory Spec2Isabelle
  imports Main "HOL-Library.FSet"
begin

section \<open>JavaScript values\<close>

text \<open>
  The extension's background worker is JavaScript. Strings are modelled as \<open>string\<close>
  (one \<open>char\<close> per code unit, restricted to the 8-bit range), numbers that hold
  timestamps and durations as \<open>int\<close>, counters as \<open>nat\<close>, \<open>null\<close>/\<open>undefined\<close> as \<open>None\<close>,
  a \<open>Set\<close> of strings as a finite set, a thrown \<open>Error\<close> as a value \<open>Error message\<close>
  on the left of a sum. \<open>Date.now()\<close> is an argument of every operation that reads it.
\<close>

datatype js_error = Error string

text \<open>\<open>toLowerCase\<close> on code units below 256: the letters A to Z and the capital letters
  of the Latin-1 block, U+00C0 to U+00DE without the multiplication sign U+00D7, move to
  their small forms 32 positions up; every other code unit stays.\<close>

definition lower_char :: "char \<Rightarrow> char" where
  "lower_char c =
     (case map_of
        (zip (''ABCDEFGHIJKLMNOPQRSTUVWXYZ'' @
              [CHR 0xC0, CHR 0xC1, CHR 0xC2, CHR 0xC3, CHR 0xC4, CHR 0xC5, CHR 0xC6, CHR 0xC7,
               CHR 0xC8, CHR 0xC9, CHR 0xCA, CHR 0xCB, CHR 0xCC, CHR 0xCD, CHR 0xCE, CHR 0xCF,
               CHR 0xD0, CHR 0xD1, CHR 0xD2, CHR 0xD3, CHR 0xD4, CHR 0xD5, CHR 0xD6,
               CHR 0xD8, CHR 0xD9, CHR 0xDA, CHR 0xDB, CHR 0xDC, CHR 0xDD, CHR 0xDE])
             (''abcdefghijklmnopqrstuvwxyz'' @
              [CHR 0xE0, CHR 0xE1, CHR 0xE2, CHR 0xE3, CHR 0xE4, CHR 0xE5, CHR 0xE6, CHR 0xE7,
               CHR 0xE8, CHR 0xE9, CHR 0xEA, CHR 0xEB, CHR 0xEC, CHR 0xED, CHR 0xEE, CHR 0xEF,
               CHR 0xF0, CHR 0xF1, CHR 0xF2, CHR 0xF3, CHR 0xF4, CHR 0xF5, CHR 0xF6,
               CHR 0xF8, CHR 0xF9, CHR 0xFA, CHR 0xFB, CHR 0xFC, CHR 0xFD, CHR 0xFE])) c of
        None \<Rightarrow> c
      | Some d \<Rightarrow> d)"

definition toLowerCase :: "string \<Rightarrow> string" where
  "toLowerCase s = map lower_char s"

text \<open>Truthiness of a \<open>number|null\<close>: \<open>null\<close> and \<open>0\<close> are falsy.\<close>

definition truthy :: "int option \<Rightarrow> bool" where
  "truthy x = (case x of None \<Rightarrow> False | Some n \<Rightarrow> n \<noteq> 0)"

text \<open>The value of \<open>a || b\<close> for an optional number \<open>a\<close> and a number \<open>b\<close>.\<close>

definition or_else :: "'a::zero option \<Rightarrow> 'a \<Rightarrow> 'a" where
  "or_else a b = (case a of None \<Rightarrow> b | Some n \<Rightarrow> if n \<noteq> 0 then n else b)"

text \<open>White space (\<open>\s\<close>, \<open>trim\<close>), word characters (\<open>\w\<close>) and line terminators.\<close>

definition isSpace :: "char \<Rightarrow> bool" where
  "isSpace c = (c \<in> set [CHR '' '', CHR 0x09, CHR 0x0A, CHR 0x0B, CHR 0x0C, CHR 0x0D, CHR 0xA0])"

definition isLineTerminator :: "char \<Rightarrow> bool" where
  "isLineTerminator c = (c = CHR 0x0A \<or> c = CHR 0x0D)"

definition isWord :: "char \<Rightarrow> bool" where
  "isWord c = (c \<in> set ''abcdefghijklmnopqrstuvwxyzABCDEFGHIJKLMNOPQRSTUVWXYZ0123456789_'')"

definition trim :: "string \<Rightarrow> string" where
  "trim s = rev (dropWhile isSpace (rev (dropWhile isSpace s)))"

fun join :: "string \<Rightarrow> string list \<Rightarrow> string" where
  "join sep [] = []"
| "join sep [x] = x"
| "join sep (x # y # ys) = x @ sep @ join sep (y # ys)"

text \<open>Decimal rendering of a number inside a template literal.\<close>

function decimal :: "nat \<Rightarrow> string" where
  "decimal n =
     (if n < 10 then [''0123456789'' ! n]
      else decimal (n div 10) @ [''0123456789'' ! (n mod 10)])"
  by pat_completeness auto
termination
  by (relation "measure id") auto

declare decimal.simps [simp del]

text \<open>\<open>Array.prototype.find\<close> returns a reference to the first match; the model returns its
  index, and a mutation through the reference is an update at that index.\<close>

fun findIndex :: "('a \<Rightarrow> bool) \<Rightarrow> 'a list \<Rightarrow> nat option" where
  "findIndex p [] = None"
| "findIndex p (x # xs) = (if p x then Some 0 else map_option Suc (findIndex p xs))"

text \<open>\<open>xs.slice(a, b)\<close> for \<open>0 \<le> a \<le> b\<close>.\<close>

definition slice :: "nat \<Rightarrow> nat \<Rightarrow> 'a list \<Rightarrow> 'a list" where
  "slice a b xs = take (b - a) (drop a xs)"

text \<open>\<open>Array.prototype.sort\<close> with a comparator is stable: an insertion sort that keeps an
  element before the later ones it does not compare greater than.\<close>

fun insertSorted :: "('a \<Rightarrow> 'a \<Rightarrow> int) \<Rightarrow> 'a \<Rightarrow> 'a list \<Rightarrow> 'a list" where
  "insertSorted cmp x [] = [x]"
| "insertSorted cmp x (y # ys) =
     (if cmp x y \<le> 0 then x # y # ys else y # insertSorted cmp x ys)"

definition sortBy :: "('a \<Rightarrow> 'a \<Rightarrow> int) \<Rightarrow> 'a list \<Rightarrow> 'a list" where
  "sortBy cmp xs = foldr (insertSorted cmp) xs []"

text \<open>
  \<open>Promise.all\<close> over promises that settle one after another in time. \<open>rank i\<close> is the
  position in time at which promise \<open>i\<close> of the list settles, and \<open>settleOrder\<close> lists
  the promises in that order (promises given the same rank are taken in the order of the
  list). \<open>Promise.all\<close> rejects with the first rejection in time; when no promise rejects
  it fulfils with the values in the order of the list.
\<close>

definition settleOrder :: "(nat \<Rightarrow> nat) \<Rightarrow> nat \<Rightarrow> nat list" where
  "settleOrder rank n = sortBy (\<lambda>i j. int (rank i) - int (rank j)) [0..<n]"

fun firstRejection :: "(js_error + 'a) list \<Rightarrow> js_error option" where
  "firstRejection [] = None"
| "firstRejection (Inl e # rs) = Some e"
| "firstRejection (Inr x # rs) = firstRejection rs"

fun fulfilled :: "(js_error + 'a) list \<Rightarrow> 'a list" where
  "fulfilled [] = []"
| "fulfilled (Inl e # rs) = fulfilled rs"
| "fulfilled (Inr x # rs) = x # fulfilled rs"

definition promiseAll :: "(nat \<Rightarrow> nat) \<Rightarrow> (js_error + 'a) list \<Rightarrow> js_error + 'a list" where
  "promiseAll rank rs =
     (case firstRejection (map (\<lambda>i. rs ! i) (settleOrder rank (length rs))) of
        Some e \<Rightarrow> Inl e
      | None \<Rightarrow> Inr (fulfilled rs))"

text \<open>What has settled when \<open>Promise.all\<close> settles: everything up to the first rejection.\<close>

fun untilRejection :: "('i \<times> (js_error + 'a)) list \<Rightarrow> ('i \<times> (js_error + 'a)) list" where
  "untilRejection [] = []"
| "untilRejection ((i, Inl e) # rs) = [(i, Inl e)]"
| "untilRejection ((i, Inr x) # rs) = (i, Inr x) # untilRejection rs"

section \<open>Constants (constants.js)\<close>

definition MAX_SUBMISSION_LENGTH :: nat where
  "MAX_SUBMISSION_LENGTH = 200"

definition DEFAULT_MODEL :: string where
  "DEFAULT_MODEL = ''deepseek/deepseek-v3.2''"

definition DEFAULT_VOTE_DURATION_SECONDS :: int where
  "DEFAULT_VOTE_DURATION_SECONDS = 40"

definition DEFAULT_MAX_TOKENS :: int where
  "DEFAULT_MAX_TOKENS = 150"

definition DEFAULT_PARTY_MEMBER_NAME :: string where
  "DEFAULT_PARTY_MEMBER_NAME = ''Elara''"

definition MIN_VOTE_DURATION_SECONDS :: int where
  "MIN_VOTE_DURATION_SECONDS = 5"

definition MIN_AUTO_REPEAT_SECONDS :: int where
  "MIN_AUTO_REPEAT_SECONDS = 20"

section \<open>Data model (types.js, state.js)\<close>

text \<open>
  Of \<open>Config\<close> and \<open>State\<close> the fields read or written by the voting cycle are kept;
  the connection fields (sockets, tokens, adventure ids, YouTube status) are touched by
  none of the functions below. The field \<open>text\<close> is written \<open>text'\<close> and \<open>context\<close>
  is written \<open>context'\<close>.
\<close>

record config =
  openRouterApiKey :: string
  model :: string
  voteDurationSeconds :: int
  maxTokens :: int
  debugMode :: bool
  partyMemberName :: string
  youtubeUrl :: string
  autoRepeatCooldownSeconds :: "int option"

record submission =
  user :: string
  text' :: string
  timestamp :: int
  votes :: "string fset"
  debugVoteCount :: "nat option"

record context_section =
  sectionType :: string
  sectionText :: string

record aid_context =
  contextSections :: "context_section list option"

datatype phase = Idle | Vote | Combine

text \<open>
  The prompts sent to the language model are fixed templates around their arguments; the
  model keeps the arguments: the character name of the system prompt, and of the user
  prompt the character name, the story-context block (absent when empty), the numbered
  submissions and their count.
\<close>

datatype system_prompt = CombineInstructions string

record user_prompt =
  promptCharacter :: string
  promptContext :: "string option"
  promptSubmissions :: "(nat \<times> string \<times> string) list"
  promptCount :: nat

record ai_call_debug =
  systemPrompt :: system_prompt
  userPrompt :: user_prompt
  response :: string
  debugModel :: string
  debugTimestamp :: int

text \<open>
  \<open>setTimeout\<close> and \<open>clearTimeout\<close> act on the worker's table of pending timeouts, kept
  in the state as \<open>timers\<close>. A handle is a positive integer, so the test
  \<open>if (state.voteTimer)\<close> is the test against \<open>null\<close>. The two callbacks ever scheduled
  are \<open>handleEndVote\<close> and the auto-repeat closure that starts the next vote.
\<close>

datatype timer_handle = TimerHandle nat

datatype timer_callback = OnVoteEnd | OnAutoRepeat

record timer =
  timerId :: timer_handle
  callback :: timer_callback
  setAt :: int
  delay :: int

record state =
  phase :: phase
  submissions :: "submission list"
  context' :: "aid_context option"
  voteTimer :: "timer_handle option"
  autoRepeatTimer :: "timer_handle option"
  voteEndTime :: "int option"
  nextVoteStartTime :: "int option"
  isPaused :: bool
  pausedVoteRemaining :: "int option"
  pausedAutoRepeatRemaining :: "int option"
  lastAICall :: "ai_call_debug option"
  config :: config
  timers :: "timer list"
  nextTimerId :: nat

definition setTimeout :: "timer_callback \<Rightarrow> int \<Rightarrow> int \<Rightarrow> state \<Rightarrow> timer_handle \<times> state" where
  "setTimeout cb ms now st =
     (let h = TimerHandle (nextTimerId st)
      in (h, st\<lparr>timers := timers st @ [\<lparr>timerId = h, callback = cb, setAt = now, delay = ms\<rparr>],
                nextTimerId := Suc (nextTimerId st)\<rparr>))"

definition clearTimeout :: "timer_handle \<Rightarrow> state \<Rightarrow> state" where
  "clearTimeout h st = st\<lparr>timers := filter (\<lambda>t. timerId t \<noteq> h) (timers st)\<rparr>"

definition pending :: "timer_handle \<Rightarrow> state \<Rightarrow> bool" where
  "pending h st = (h \<in> timerId ` set (timers st))"

definition initialConfig :: config where
  "initialConfig =
     \<lparr>openRouterApiKey = '''', model = DEFAULT_MODEL,
      voteDurationSeconds = DEFAULT_VOTE_DURATION_SECONDS, maxTokens = DEFAULT_MAX_TOKENS,
      debugMode = False, partyMemberName = '''', youtubeUrl = '''',
      autoRepeatCooldownSeconds = None\<rparr>"

definition createInitialState :: state where
  "createInitialState =
     \<lparr>phase = Idle, submissions = [], context' = None, voteTimer = None,
      autoRepeatTimer = None, voteEndTime = None, nextVoteStartTime = None,
      isPaused = False, pausedVoteRemaining = None, pausedAutoRepeatRemaining = None,
      lastAICall = None, config = initialConfig, timers = [], nextTimerId = 1\<rparr>"

section \<open>Phase transitions (state.js)\<close>

definition transitionToVote :: "state \<Rightarrow> bool \<times> state" where
  "transitionToVote st =
     (if phase st \<noteq> Idle then (False, st)
      else (True, st\<lparr>phase := Vote, submissions := []\<rparr>))"

definition cancelVoteTimer :: "state \<Rightarrow> state" where
  "cancelVoteTimer st =
     (case voteTimer st of
        None \<Rightarrow> st
      | Some h \<Rightarrow> (clearTimeout h st)\<lparr>voteTimer := None\<rparr>)"

definition transitionToCombine :: "state \<Rightarrow> bool \<times> state" where
  "transitionToCombine st =
     (if phase st \<noteq> Vote then (False, st)
      else (True, (cancelVoteTimer st)\<lparr>phase := Combine\<rparr>))"

definition transitionToIdle :: "state \<Rightarrow> state" where
  "transitionToIdle st = (cancelVoteTimer st)\<lparr>voteEndTime := None, phase := Idle\<rparr>"

definition setAutoRepeatTimer :: "state \<Rightarrow> timer_handle option \<Rightarrow> state" where
  "setAutoRepeatTimer st t = st\<lparr>autoRepeatTimer := t\<rparr>"

definition clearAutoRepeatTimer :: "state \<Rightarrow> state" where
  "clearAutoRepeatTimer st =
     (case autoRepeatTimer st of
        None \<Rightarrow> st
      | Some h \<Rightarrow> (clearTimeout h st)\<lparr>autoRepeatTimer := None\<rparr>)\<lparr>nextVoteStartTime := None\<rparr>"

definition setContext :: "state \<Rightarrow> aid_context \<Rightarrow> state" where
  "setContext st c = st\<lparr>context' := Some c\<rparr>"

section \<open>The submission ledger (voting.js)\<close>

definition sameUser :: "string \<Rightarrow> submission \<Rightarrow> bool" where
  "sameUser name s = (toLowerCase (user s) = toLowerCase name)"

definition newSubmission :: "string \<Rightarrow> string \<Rightarrow> int \<Rightarrow> submission" where
  "newSubmission u t now =
     \<lparr>user = u, text' = t, timestamp = now, votes = {|toLowerCase u|}, debugVoteCount = None\<rparr>"

definition handleSubmission :: "state \<Rightarrow> string \<Rightarrow> string \<Rightarrow> bool \<Rightarrow> int \<Rightarrow> state" where
  "handleSubmission st u t debug now =
     (if length t = 0 \<or> length t > MAX_SUBMISSION_LENGTH then st
      else if debug then st\<lparr>submissions := submissions st @ [newSubmission u t now]\<rparr>
      else
        (case findIndex (sameUser u) (submissions st) of
           Some i \<Rightarrow>
             (let existing = submissions st ! i
              in st\<lparr>submissions := (submissions st)
                    [i := existing\<lparr>text' := t, timestamp := now,
                                   votes := finsert (toLowerCase u) (votes existing)\<rparr>]\<rparr>)
         | None \<Rightarrow> st\<lparr>submissions := submissions st @ [newSubmission u t now]\<rparr>))"

definition castVote :: "string \<Rightarrow> bool \<Rightarrow> submission \<Rightarrow> submission" where
  "castVote voter debug s =
     (let alreadyVoted = (toLowerCase voter |\<in>| votes s)
      in if debug \<or> \<not> alreadyVoted then
           (let s1 = s\<lparr>votes := finsert (toLowerCase voter) (votes s)\<rparr>
            in if debug \<and> alreadyVoted then
                 s1\<lparr>debugVoteCount :=
                      Some (or_else (debugVoteCount s1) (fcard (votes s1)) + 1)\<rparr>
               else s1)
         else s)"

definition handleVote :: "state \<Rightarrow> string \<Rightarrow> string \<Rightarrow> bool \<Rightarrow> state" where
  "handleVote st voter targetUser debug =
     (case findIndex (sameUser targetUser) (submissions st) of
        None \<Rightarrow> st
      | Some i \<Rightarrow>
          st\<lparr>submissions := (submissions st)[i := castVote voter debug (submissions st ! i)]\<rparr>)"

definition getVoteCount :: "submission \<Rightarrow> nat" where
  "getVoteCount s = or_else (debugVoteCount s) (fcard (votes s))"

definition setVoteTimer :: "state \<Rightarrow> int \<Rightarrow> timer_callback \<Rightarrow> state" where
  "setVoteTimer st now onTimeout =
     (let duration = max (voteDurationSeconds (config st)) MIN_VOTE_DURATION_SECONDS;
          (h, st1) = setTimeout onTimeout (duration * 1000) now st
      in st1\<lparr>voteTimer := Some h\<rparr>)"

definition compareSubmissions :: "submission \<Rightarrow> submission \<Rightarrow> int" where
  "compareSubmissions a b =
     (let voteDiff = int (getVoteCount b) - int (getVoteCount a)
      in if voteDiff \<noteq> 0 then voteDiff else timestamp b - timestamp a)"

section \<open>The language-model client and the recursive merge (openrouter.js)\<close>

text \<open>
  The collaborators are parameters. \<open>openRouter k r\<close> is the outcome of the HTTP exchange
  of the \<open>k\<close>-th call of a merge (calls are numbered in the order they are issued):
  the trimmed completion or the thrown error. \<open>settleRank k\<close> is the position in time at
  which that call settles: of two calls in flight together, the one of smaller rank
  settles first (calls rejected before any request is sent settle in the order they were
  issued). \<open>dateNow k\<close> is the clock reading taken when that call has returned.
  \<open>mostRecentAction\<close> is what \<open>fetchMostRecentAction\<close>
  resolves to (it never rejects) and \<open>submitToAID t\<close> is \<open>None\<close> when the game accepted
  the action \<open>t\<close> and the thrown error otherwise.
\<close>

record llm_request =
  requestModel :: string
  requestMaxTokens :: int
  requestSystem :: system_prompt
  requestUser :: user_prompt

record env =
  openRouter :: "nat \<Rightarrow> llm_request \<Rightarrow> js_error + string"
  settleRank :: "nat \<Rightarrow> nat"
  dateNow :: "nat \<Rightarrow> int"
  mostRecentAction :: "string option"
  submitToAID :: "string \<Rightarrow> js_error option"

type_synonym llm_call = "system_prompt \<times> user_prompt"

text \<open>The trace of a merge: call \<open>k\<close> is issued with its prompts, and later settles with
  its outcome.\<close>

datatype call_event = Issued nat llm_call | Settled nat "js_error + string"

fun issuedCount :: "call_event list \<Rightarrow> nat" where
  "issuedCount [] = 0"
| "issuedCount (Issued k c # es) = Suc (issuedCount es)"
| "issuedCount (Settled k r # es) = issuedCount es"

record merge_result =
  result :: string
  debugInfo :: "ai_call_debug option"

definition buildSystemPrompt :: "string \<Rightarrow> system_prompt" where
  "buildSystemPrompt name = CombineInstructions name"

definition callOpenRouter ::
  "env \<Rightarrow> nat \<Rightarrow> config \<Rightarrow> system_prompt \<Rightarrow> user_prompt \<Rightarrow> js_error + string" where
  "callOpenRouter w k cfg sp up =
     (if openRouterApiKey cfg = [] then Inl (Error ''OpenRouter API key not configured'')
      else openRouter w k
             \<lparr>requestModel = model cfg, requestMaxTokens = maxTokens cfg,
              requestSystem = sp, requestUser = up\<rparr>)"

definition SKIP_SECTIONS :: "string list" where
  "SKIP_SECTIONS = [''instructions'', ''authorsNote'']"

definition extractStoryContext :: "aid_context option \<Rightarrow> string" where
  "extractStoryContext ctx =
     (case ctx of
        None \<Rightarrow> []
      | Some c \<Rightarrow>
          (case contextSections c of
             None \<Rightarrow> []
           | Some sections \<Rightarrow>
               (let filtered =
                      filter (\<lambda>s. sectionType s \<notin> set SKIP_SECTIONS \<and> sectionText s \<noteq> [])
                        sections
                in trim (join [CHR 0x0A, CHR 0x0A] (map (\<lambda>s. trim (sectionText s)) filtered)))))"

definition buildCombinePrompt ::
  "string \<Rightarrow> string option \<Rightarrow> submission list \<Rightarrow> string \<Rightarrow> user_prompt" where
  "buildCombinePrompt storyContext lastAIOutput subs name =
     (let submissionList = map (\<lambda>(i, s). (i + 1, text' s, user s)) (enumerate 0 subs);
          fullContext =
            trim (storyContext @
                  (case lastAIOutput of
                     None \<Rightarrow> []
                   | Some l \<Rightarrow>
                       if l \<noteq> [] then [CHR 0x0A, CHR 0x0A] @ ''Most Recent:'' @ [CHR 0x0A] @ l
                       else []))
      in \<lparr>promptCharacter = name,
          promptContext = (if fullContext \<noteq> [] then Some fullContext else None),
          promptSubmissions = submissionList,
          promptCount = length subs\<rparr>)"

definition tokensPerSubmission :: nat where
  "tokensPerSubmission = 50"

definition targetBatchTokens :: nat where
  "targetBatchTokens = 16000"

definition batchSize :: nat where
  "batchSize = max 3 (targetBatchTokens div tokensPerSubmission)"

text \<open>The loop \<open>for (i = 0; i < n; i += batchSize) batches.push(slice(i, i + batchSize))\<close>.\<close>

function batchLoop :: "nat \<Rightarrow> 'a list \<Rightarrow> 'a list list \<Rightarrow> 'a list list" where
  "batchLoop i xs batches =
     (if i < length xs then batchLoop (i + batchSize) xs (batches @ [slice i (i + batchSize) xs])
      else batches)"
  by pat_completeness auto
termination
  by (relation "measure (\<lambda>(i, xs, batches). length xs - i)") (auto simp: batchSize_def)

declare batchLoop.simps [simp del]

definition makeBatches :: "'a list \<Rightarrow> 'a list list" where
  "makeBatches xs = batchLoop 0 xs []"

definition mergePartyName :: "config \<Rightarrow> string" where
  "mergePartyName cfg =
     (if partyMemberName cfg \<noteq> [] then partyMemberName cfg else ''the party member'')"

text \<open>The prompt built for a list of submissions, and the outcome of call \<open>k\<close> issued
  with it.\<close>

definition batchPrompt ::
  "config \<Rightarrow> aid_context option \<Rightarrow> string option \<Rightarrow> submission list \<Rightarrow> user_prompt" where
  "batchPrompt cfg ctx lastAIOutput batch =
     buildCombinePrompt (extractStoryContext ctx) lastAIOutput batch (mergePartyName cfg)"

definition batchOutcome ::
  "env \<Rightarrow> nat \<Rightarrow> config \<Rightarrow> aid_context option \<Rightarrow> string option \<Rightarrow> submission list
     \<Rightarrow> js_error + string" where
  "batchOutcome w k cfg ctx lastAIOutput batch =
     callOpenRouter w k cfg (buildSystemPrompt (mergePartyName cfg))
       (batchPrompt cfg ctx lastAIOutput batch)"

text \<open>The body of the \<open>batches.map\<close> callback: one call, wrapped as a submission.\<close>

definition mergeBatch ::
  "env \<Rightarrow> nat \<Rightarrow> config \<Rightarrow> aid_context option \<Rightarrow> string option \<Rightarrow> submission list \<Rightarrow> nat
     \<Rightarrow> js_error + submission" where
  "mergeBatch w k cfg ctx lastAIOutput batch idx =
     (case batchOutcome w k cfg ctx lastAIOutput batch of
        Inl e \<Rightarrow> Inl e
      | Inr r \<Rightarrow>
          Inr \<lparr>user = ''Batch'' @ decimal (idx + 1), text' = r, timestamp = dateNow w k,
               votes = {||}, debugVoteCount = None\<rparr>)"

text \<open>
  One round over a list of batches, \<open>k\<close> calls having been issued before. \<open>batches.map\<close>
  runs every callback up to its \<open>await\<close>, so all the calls are issued, in the order of the
  batches, before any of them settles; they then settle in the order of their ranks, and
  \<open>Promise.all\<close> settles at the first rejection or when all have returned.
\<close>

definition batchIssues ::
  "nat \<Rightarrow> config \<Rightarrow> aid_context option \<Rightarrow> string option \<Rightarrow> submission list list
     \<Rightarrow> call_event list" where
  "batchIssues k cfg ctx lastAIOutput batches =
     map (\<lambda>(idx, batch).
            Issued (k + idx)
              (buildSystemPrompt (mergePartyName cfg), batchPrompt cfg ctx lastAIOutput batch))
       (enumerate 0 batches)"

definition batchSettles ::
  "env \<Rightarrow> nat \<Rightarrow> config \<Rightarrow> aid_context option \<Rightarrow> string option \<Rightarrow> submission list list
     \<Rightarrow> call_event list" where
  "batchSettles w k cfg ctx lastAIOutput batches =
     map (\<lambda>(i, r). Settled (k + i) r)
       (untilRejection
          (map (\<lambda>i. (i, batchOutcome w (k + i) cfg ctx lastAIOutput (batches ! i)))
             (settleOrder (\<lambda>i. settleRank w (k + i)) (length batches))))"

definition mergeBatches ::
  "env \<Rightarrow> nat \<Rightarrow> config \<Rightarrow> aid_context option \<Rightarrow> string option \<Rightarrow> submission list list
     \<Rightarrow> js_error + submission list" where
  "mergeBatches w k cfg ctx lastAIOutput batches =
     promiseAll (\<lambda>i. settleRank w (k + i))
       (map (\<lambda>(idx, batch). mergeBatch w (k + idx) cfg ctx lastAIOutput batch idx)
          (enumerate 0 batches))"

text \<open>
  \<open>recursiveMerge\<close> carries the trace of the calls so far, a call being an invocation of
  \<open>callOpenRouter\<close>, and returns the trace with its result; \<open>None\<close> stands for a merge
  that never returns.
\<close>

partial_function (option) recursiveMerge ::
  "env \<Rightarrow> call_event list \<Rightarrow> config \<Rightarrow> aid_context option \<Rightarrow> submission list \<Rightarrow> string option
     \<Rightarrow> (call_event list \<times> (js_error + merge_result)) option" where
  "recursiveMerge w calls cfg ctx subs lastAIOutput =
     (if length subs = 1 then Some (calls, Inr \<lparr>result = text' (hd subs), debugInfo = None\<rparr>)
      else if length subs \<le> batchSize then
        (let sp = buildSystemPrompt (mergePartyName cfg);
             up = batchPrompt cfg ctx lastAIOutput subs;
             k = issuedCount calls;
             outcome = batchOutcome w k cfg ctx lastAIOutput subs
         in Some (calls @ [Issued k (sp, up), Settled k outcome],
                  case outcome of
                    Inl e \<Rightarrow> Inl e
                  | Inr r \<Rightarrow>
                      Inr \<lparr>result = r,
                           debugInfo =
                             Some \<lparr>systemPrompt = sp, userPrompt = up, response = r,
                                   debugModel = model cfg, debugTimestamp = dateNow w k\<rparr>\<rparr>))
      else
        (let batches = makeBatches subs;
             k = issuedCount calls;
             calls' = calls @ batchIssues k cfg ctx lastAIOutput batches
                        @ batchSettles w k cfg ctx lastAIOutput batches
         in case mergeBatches w k cfg ctx lastAIOutput batches of
              Inl e \<Rightarrow> Some (calls', Inl e)
            | Inr intermediateResults \<Rightarrow>
                recursiveMerge w calls' cfg ctx intermediateResults None))"

section \<open>Combining (voting.js)\<close>

datatype announcement =
    NoSubmissionsReceived
  | Winner string nat
  | Blended string string string
  | ErrorNotice string
  | ActionSubmitted

datatype effect = SendTwitchMessage announcement | SubmitToAID string

text \<open>The call \<open>deps.submitToAID(state, text, ...)\<close>: on success the game client reports
  to chat, on failure it throws.\<close>

definition callSubmitToAID :: "env \<Rightarrow> string \<Rightarrow> effect list \<times> js_error option" where
  "callSubmitToAID w t =
     (case submitToAID w t of
        None \<Rightarrow> ([SubmitToAID t, SendTwitchMessage ActionSubmitted], None)
      | Some e \<Rightarrow> ([SubmitToAID t], Some e))"

definition reportError :: "js_error option \<Rightarrow> effect list" where
  "reportError r = (case r of None \<Rightarrow> [] | Some (Error m) \<Rightarrow> [SendTwitchMessage (ErrorNotice m)])"

definition combineSubmissions :: "env \<Rightarrow> state \<Rightarrow> (effect list \<times> state) option" where
  "combineSubmissions w st =
     (if length (submissions st) = 0 then Some ([SendTwitchMessage NoSubmissionsReceived], st)
      else if openRouterApiKey (config st) = [] then
        (let sorted = sortBy compareSubmissions (submissions st);
             winner = hd sorted;
             winnerVotes = getVoteCount winner;
             (sent, failure) = callSubmitToAID w (text' winner)
         in Some (SendTwitchMessage (Winner (text' winner) winnerVotes) # sent @ reportError failure,
                  st))
      else
        (case recursiveMerge w [] (config st) (context' st) (submissions st) (mostRecentAction w) of
           None \<Rightarrow> None
         | Some (calls, Inl e) \<Rightarrow> Some (reportError (Some e), st)
         | Some (calls, Inr r) \<Rightarrow>
             (let st1 = (case debugInfo r of None \<Rightarrow> st | Some d \<Rightarrow> st\<lparr>lastAICall := Some d\<rparr>);
                  label = (if length (submissions st1) = 1 then ''Action'' else ''Combined'');
                  partyName = (if partyMemberName (config st1) \<noteq> [] then partyMemberName (config st1)
                               else DEFAULT_PARTY_MEMBER_NAME);
                  (sent, failure) = callSubmitToAID w (result r)
              in Some (SendTwitchMessage (Blended label partyName (result r)) # sent
                         @ reportError failure, st1))))"

section \<open>Pause and resume (pause.js)\<close>

text \<open>\<open>null - x\<close> is \<open>0 - x\<close>.\<close>

definition toNumber :: "int option \<Rightarrow> int" where
  "toNumber x = (case x of None \<Rightarrow> 0 | Some n \<Rightarrow> n)"

definition pauseTimers :: "state \<Rightarrow> int \<Rightarrow> state" where
  "pauseTimers st now =
     (if phase st = Vote \<and> truthy (voteEndTime st) then
        cancelVoteTimer
          (st\<lparr>pausedVoteRemaining := Some (max 0 (toNumber (voteEndTime st) - now))\<rparr>)
      else if phase st = Idle \<and> truthy (nextVoteStartTime st) then
        clearAutoRepeatTimer
          (st\<lparr>pausedAutoRepeatRemaining := Some (max 0 (toNumber (nextVoteStartTime st) - now))\<rparr>)
      else st)"

definition resumeTimers :: "state \<Rightarrow> int \<Rightarrow> (state \<Rightarrow> state) \<Rightarrow> state" where
  "resumeTimers st now scheduleAutoRepeat' =
     (if phase st = Vote \<and> truthy (pausedVoteRemaining st) then
        (let remaining = toNumber (pausedVoteRemaining st);
             st1 = st\<lparr>voteEndTime := Some (now + remaining)\<rparr>;
             (h, st2) = setTimeout OnVoteEnd remaining now st1
         in st2\<lparr>voteTimer := Some h, pausedVoteRemaining := None\<rparr>)
      else if phase st = Idle \<and> truthy (pausedAutoRepeatRemaining st) then
        (let remaining = toNumber (pausedAutoRepeatRemaining st);
             st1 = st\<lparr>nextVoteStartTime := Some (now + remaining)\<rparr>;
             (h, st2) = setTimeout OnAutoRepeat remaining now st1
         in (setAutoRepeatTimer st2 (Some h))\<lparr>pausedAutoRepeatRemaining := None\<rparr>)
      else if phase st = Idle \<and> truthy (autoRepeatCooldownSeconds (config st)) then
        scheduleAutoRepeat' st
      else st)"

definition togglePause :: "state \<Rightarrow> int \<Rightarrow> (state \<Rightarrow> state) \<Rightarrow> state" where
  "togglePause st now scheduleAutoRepeat' =
     (let st1 = st\<lparr>isPaused := \<not> isPaused st\<rparr>
      in if isPaused st1 then pauseTimers st1 now
         else resumeTimers st1 now scheduleAutoRepeat')"

section \<open>The orchestrator (index.js)\<close>

definition handleStartVote :: "state \<Rightarrow> int \<Rightarrow> state" where
  "handleStartVote st now =
     (let st1 = clearAutoRepeatTimer st;
          st2 = st1\<lparr>isPaused := False, pausedVoteRemaining := None,
                    pausedAutoRepeatRemaining := None\<rparr>;
          (ok, st3) = transitionToVote st2
      in if \<not> ok then st3
         else
           (let duration = max (voteDurationSeconds (config st3)) MIN_VOTE_DURATION_SECONDS;
                st4 = st3\<lparr>voteEndTime := Some (now + duration * 1000)\<rparr>
            in setVoteTimer st4 now OnVoteEnd))"

text \<open>\<open>handleEndVote\<close> up to the point where it launches \<open>combineAndSubmit\<close>, which settles
  later, as an event of its own.\<close>

definition handleEndVote :: "state \<Rightarrow> state" where
  "handleEndVote st =
     (let st1 = st\<lparr>pausedVoteRemaining := None\<rparr>;
          (ok, st2) = transitionToCombine st1
      in st2)"

definition scheduleAutoRepeat :: "state \<Rightarrow> int \<Rightarrow> state" where
  "scheduleAutoRepeat st now =
     (if isPaused st then st
      else if \<not> truthy (autoRepeatCooldownSeconds (config st)) then st
      else
        (let delaySeconds =
               max (toNumber (autoRepeatCooldownSeconds (config st))) MIN_AUTO_REPEAT_SECONDS;
             st1 = st\<lparr>nextVoteStartTime := Some (now + delaySeconds * 1000)\<rparr>;
             (h, st2) = setTimeout OnAutoRepeat (delaySeconds * 1000) now st1
         in setAutoRepeatTimer st2 (Some h)))"

definition handleTogglePause :: "state \<Rightarrow> int \<Rightarrow> state" where
  "handleTogglePause st now = togglePause st now (\<lambda>s. scheduleAutoRepeat s now)"

definition combineAndSubmit :: "env \<Rightarrow> state \<Rightarrow> int \<Rightarrow> (effect list \<times> state) option" where
  "combineAndSubmit w st now =
     (case combineSubmissions w st of
        None \<Rightarrow> None
      | Some (sent, st1) \<Rightarrow> Some (sent, scheduleAutoRepeat (transitionToIdle st1) now))"

text \<open>What a timeout runs when it fires.\<close>

definition runCallback :: "timer_callback \<Rightarrow> state \<Rightarrow> int \<Rightarrow> state" where
  "runCallback cb st now =
     (case cb of
        OnVoteEnd \<Rightarrow> handleEndVote st
      | OnAutoRepeat \<Rightarrow> handleStartVote (st\<lparr>nextVoteStartTime := None, autoRepeatTimer := None\<rparr>) now)"

text \<open>
  The two patterns of the chat grammar, each returning its capture group:
  \<open>/^(?:\+1\s+@(\w+)|@(\w+)\s+\+1)$/i\<close> and \<open>/^>\s*(.+)$/\<close>. In the first no back-tracking
  can succeed, since \<open>@\<close> and \<open>+\<close> are neither white space nor word characters. In the
  second \<open>\s*\<close> gives back one character when it has consumed the whole rest, and \<open>.\<close>
  matches no line terminator.
\<close>

definition matchVote :: "string \<Rightarrow> string option" where
  "matchVote t =
     (case t of
        [] \<Rightarrow> None
      | c # r \<Rightarrow>
          if c = CHR ''+'' then
            (case r of
               [] \<Rightarrow> None
             | d # r1 \<Rightarrow>
                 (let ws = takeWhile isSpace r1; r2 = dropWhile isSpace r1
                  in if d = CHR ''1'' \<and> ws \<noteq> [] then
                       (case r2 of
                          [] \<Rightarrow> None
                        | a # name \<Rightarrow>
                            if a = CHR ''@'' \<and> name \<noteq> [] \<and> list_all isWord name then Some name
                            else None)
                     else None))
          else if c = CHR ''@'' then
            (let name = takeWhile isWord r; r1 = dropWhile isWord r;
                 ws = takeWhile isSpace r1; r2 = dropWhile isSpace r1
             in if name \<noteq> [] \<and> ws \<noteq> [] \<and> r2 = ''+1'' then Some name else None)
          else None)"

definition matchSubmission :: "string \<Rightarrow> string option" where
  "matchSubmission t =
     (case t of
        [] \<Rightarrow> None
      | c # r \<Rightarrow>
          if c \<noteq> CHR ''>'' then None
          else
            (let body = dropWhile isSpace r
             in if body \<noteq> [] then (if list_ex isLineTerminator body then None else Some body)
                else if r = [] then None
                else if isLineTerminator (last r) then None
                else Some [last r]))"

record chat_message =
  msgUser :: string
  msgText :: string
  isBroadcaster :: bool
  isMod :: bool

definition handleTwitchChatMessage :: "state \<Rightarrow> chat_message \<Rightarrow> int \<Rightarrow> state" where
  "handleTwitchChatMessage st message now =
     (let canUseCommands = (isBroadcaster message \<or> isMod message)
      in if toLowerCase (msgText message) = ''!vote'' then
           (if canUseCommands then handleStartVote st now else st)
         else if toLowerCase (msgText message) = ''!tally'' then
           (if canUseCommands then handleEndVote st else st)
         else if phase st \<noteq> Vote then st
         else
           (case matchVote (msgText message) of
              Some target \<Rightarrow>
                handleVote st (msgUser message) (toLowerCase target) (debugMode (config st))
            | None \<Rightarrow>
                (case matchSubmission (msgText message) of
                   Some actionText \<Rightarrow>
                     handleSubmission st (msgUser message) (trim actionText)
                       (debugMode (config st)) now
                 | None \<Rightarrow> st)))"

definition handleYouTubeChatMessage :: "state \<Rightarrow> string \<Rightarrow> string \<Rightarrow> int \<Rightarrow> state" where
  "handleYouTubeChatMessage st u t now =
     (if phase st \<noteq> Vote then st
      else
        (case matchVote t of
           Some target \<Rightarrow> handleVote st u (toLowerCase target) (debugMode (config st))
         | None \<Rightarrow>
             (case matchSubmission t of
                Some actionText \<Rightarrow>
                  handleSubmission st u (trim actionText) (debugMode (config st)) now
              | None \<Rightarrow> st)))"

section \<open>Events\<close>

text \<open>
  The worker is single-threaded: each event runs its handler to completion on the state.
  The events are a chat line from Twitch, a chat line from YouTube, the popup's
  \<open>START_VOTE\<close>, \<open>END_VOTE\<close>, \<open>TOGGLE_PAUSE\<close> and \<open>SAVE_CONFIG\<close> (with the merged
  configuration), a context update from the game, a pending timeout that has become due,
  and the settling of the \<open>combineAndSubmit\<close> launched by \<open>handleEndVote\<close>, whose
  continuation is pending exactly while the phase is \<open>combine\<close>. \<open>None\<close> means that the
  event cannot happen in that state.
\<close>

datatype event =
    TwitchChat chat_message
  | YouTubeChat string string
  | StartVote
  | EndVote
  | TogglePause
  | SaveConfig config
  | ContextUpdate aid_context
  | TimerFired timer_handle
  | CombineSettled env

definition handleEvent :: "int \<Rightarrow> event \<Rightarrow> state \<Rightarrow> state option" where
  "handleEvent now e st =
     (case e of
        TwitchChat message \<Rightarrow> Some (handleTwitchChatMessage st message now)
      | YouTubeChat u t \<Rightarrow>
          Some (if youtubeUrl (config st) \<noteq> [] then handleYouTubeChatMessage st u t now else st)
      | StartVote \<Rightarrow> Some (handleStartVote st now)
      | EndVote \<Rightarrow> Some (handleEndVote st)
      | TogglePause \<Rightarrow> Some (handleTogglePause st now)
      | SaveConfig cfg \<Rightarrow> Some (st\<lparr>config := cfg\<rparr>)
      | ContextUpdate c \<Rightarrow> Some (setContext st c)
      | TimerFired h \<Rightarrow>
          (case find (\<lambda>t. timerId t = h) (timers st) of
             None \<Rightarrow> None
           | Some t \<Rightarrow>
               if now < setAt t + delay t then None
               else Some (runCallback (callback t) (clearTimeout h st) now))
      | CombineSettled w \<Rightarrow>
          (if phase st = Combine then map_option snd (combineAndSubmit w st now) else None))"

text \<open>The states the worker can be in: it starts from the initial state with the stored
  configuration loaded, and handles events.\<close>

inductive reachable :: "state \<Rightarrow> bool" where
  reachable_init: "reachable (createInitialState\<lparr>config := cfg\<rparr>)"
| reachable_step: "reachable st \<Longrightarrow> handleEvent now e st = Some st' \<Longrightarrow> reachable st'"

text \<open>A chat line that is a submission or a vote.\<close>

definition isSubmissionOrVote :: "string \<Rightarrow> bool" where
  "isSubmissionOrVote t = (matchVote t \<noteq> None \<or> matchSubmission t \<noteq> None)"

text \<open>The chat-driven events: a submission or a vote arriving from Twitch or YouTube.\<close>

definition chatEntry :: "event \<Rightarrow> bool" where
  "chatEntry e =
     (case e of
        TwitchChat message \<Rightarrow> isSubmissionOrVote (msgText message)
      | YouTubeChat u t \<Rightarrow> isSubmissionOrVote t
      | _ \<Rightarrow> False)"

section \<open>Example runs\<close>

text \<open>A debug-mode ledger: Ann submits, votes for herself again, then Bob and Cy vote for
  her.\<close>

definition debugLedger :: state where
  "debugLedger =
     handleVote (handleVote (handleVote
       (handleSubmission (createInitialState\<lparr>phase := Vote\<rparr>) ''Ann'' ''open the door'' True 10)
       ''ann'' ''ann'' True) ''bob'' ''ann'' True) ''cy'' ''ann'' True"

text \<open>A normal-mode ledger with Ann's submission.\<close>

definition annLedger :: state where
  "annLedger =
     handleSubmission (createInitialState\<lparr>phase := Vote\<rparr>) ''Ann'' ''open the door'' False 10"

text \<open>A vote started at time 0 with the default 40 seconds.\<close>

definition votingState :: state where
  "votingState = handleStartVote createInitialState 0"

text \<open>An idle worker with a 30-second auto-repeat cooldown running since time 0.\<close>

definition cooldownState :: state where
  "cooldownState =
     scheduleAutoRepeat
       (createInitialState\<lparr>config := initialConfig\<lparr>autoRepeatCooldownSeconds := Some 30\<rparr>\<rparr>) 0"

text \<open>A vote started at time 0, paused at its deadline 40000 before the timeout has run,
  and resumed at 50000.\<close>

definition pausedAtDeadline :: "state option" where
  "pausedAtDeadline =
     Option.bind (Option.bind (handleEvent 0 StartVote createInitialState)
       (handleEvent 40000 TogglePause)) (handleEvent 50000 TogglePause)"

text \<open>The cooldown of \<open>cooldownState\<close>, paused at its deadline 30000 and resumed at 50000.\<close>

definition cooldownPausedAtDeadline :: state where
  "cooldownPausedAtDeadline =
     handleTogglePause (handleTogglePause cooldownState 30000) 50000"

text \<open>Collaborators that always succeed: the model answers \<open>ok\<close>, the calls settle in the
  order they were issued, the game accepts.\<close>

definition quietEnv :: env where
  "quietEnv =
     \<lparr>openRouter = (\<lambda>k r. Inr ''ok''), settleRank = (\<lambda>k. k), dateNow = (\<lambda>k. 0),
      mostRecentAction = None, submitToAID = (\<lambda>t. None)\<rparr>"

text \<open>A model whose first call fails late and whose other calls fail early: call 0 is the
  last to settle.\<close>

definition failingEnv :: env where
  "failingEnv =
     \<lparr>openRouter = (\<lambda>k r. if k = 0 then Inl (Error ''late'') else Inl (Error ''early'')),
      settleRank = (\<lambda>k. 10 - k), dateNow = (\<lambda>k. 0), mostRecentAction = None,
      submitToAID = (\<lambda>t. None)\<rparr>"

text \<open>The ledger of the specification's example, without an API key: A and B have two
  votes each, C has one, and B was submitted after A.\<close>

definition tallyExample :: state where
  "tallyExample =
     createInitialState
       \<lparr>phase := Combine,
        submissions :=
          [\<lparr>user = ''A'', text' = ''open the door'', timestamp = 1,
            votes = {|''a'', ''x''|}, debugVoteCount = None\<rparr>,
           \<lparr>user = ''B'', text' = ''search the room'', timestamp = 2,
            votes = {|''b'', ''y''|}, debugVoteCount = None\<rparr>,
           \<lparr>user = ''C'', text' = ''run'', timestamp = 3,
            votes = {|''c''|}, debugVoteCount = None\<rparr>]\<rparr>"

text \<open>A chat line of an ordinary viewer.\<close>

definition doorMessage :: chat_message where
  "doorMessage =
     \<lparr>msgUser = ''bob'', msgText = ''> open the door'', isBroadcaster = False, isMod = False\<rparr>"

text \<open>A configuration with an API key, and a submission to fill lists with.\<close>

definition keyedConfig :: config where
  "keyedConfig = initialConfig\<lparr>openRouterApiKey := ''sk-test''\<rparr>"

definition sampleSubmission :: submission where
  "sampleSubmission = newSubmission ''Ann'' ''open the door'' 10"

section \<open>Properties of the ledger\<close>

lemma toLowerCase_examples:
  "toLowerCase ''Ann'' = ''ann''" "toLowerCase ''ann'' = ''ann''"
  "toLowerCase ''bob'' = ''bob''" "toLowerCase ''cy'' = ''cy''"
  by (simp_all add: toLowerCase_def lower_char_def)

lemma findIndex_Some: "findIndex p xs = Some i \<Longrightarrow> i < length xs \<and> p (xs ! i)"
  by (induction xs arbitrary: i) (auto split: if_splits)

lemma findIndex_update:
  "findIndex p xs = Some i \<Longrightarrow> p y \<Longrightarrow> findIndex p (xs[i := y]) = Some i"
proof (induction xs arbitrary: i)
  case Nil
  then show ?case by simp
next
  case (Cons x xs)
  then show ?case by (cases "p x") auto
qed

lemma sameUser_castVote [simp]: "sameUser t (castVote v d s) = sameUser t s"
  by (simp add: sameUser_def castVote_def Let_def)

lemma castVote_again: "castVote v False (castVote v False s) = castVote v False s"
  by (simp add: castVote_def Let_def)

lemma castVote_already: "toLowerCase v |\<in>| votes s \<Longrightarrow> castVote v False s = s"
  by (simp add: castVote_def Let_def)

lemma handleVote_already:
  "findIndex (sameUser target) (submissions st) = Some i \<Longrightarrow>
   toLowerCase voter |\<in>| votes (submissions st ! i) \<Longrightarrow>
   handleVote st voter target False = st"
  by (simp add: handleVote_def castVote_already)

lemma handleVote_twice:
  "handleVote (handleVote st voter target False) voter target False =
   handleVote st voter target False"
proof (cases "findIndex (sameUser target) (submissions st)")
  case None
  then show ?thesis by (simp add: handleVote_def)
next
  case (Some i)
  then have i: "i < length (submissions st)" "sameUser target (submissions st ! i)"
    using findIndex_Some by fastforce+
  have "findIndex (sameUser target)
          ((submissions st)[i := castVote voter False (submissions st ! i)]) = Some i"
    using Some i by (intro findIndex_update) simp_all
  then show ?thesis
    using Some i by (simp add: handleVote_def castVote_again)
qed

lemma debugLedger_submissions:
  "submissions debugLedger =
     [\<lparr>user = ''Ann'', text' = ''open the door'', timestamp = 10,
       votes = {|''ann'', ''bob'', ''cy''|}, debugVoteCount = Some 2\<rparr>]"
  by (simp add: debugLedger_def handleSubmission_def handleVote_def castVote_def
      newSubmission_def createInitialState_def sameUser_def toLowerCase_examples
      MAX_SUBMISSION_LENGTH_def or_else_def fcard_finsert_if Let_def) auto

lemma annLedger_submissions:
  "submissions annLedger =
     [\<lparr>user = ''Ann'', text' = ''open the door'', timestamp = 10,
       votes = {|''ann''|}, debugVoteCount = None\<rparr>]"
  by (simp add: annLedger_def handleSubmission_def newSubmission_def createInitialState_def
      sameUser_def toLowerCase_examples MAX_SUBMISSION_LENGTH_def)

text \<open>
  C9: a text of length 0 or of more than 200 characters is rejected by
  \<open>handleSubmission\<close>, in normal and in debug mode alike: the state, and with it the
  ledger, is returned unchanged.
\<close>

theorem handleSubmission_rejects_bad_length:
  "length t = 0 \<or> length t > 200 \<Longrightarrow>
   handleSubmission st u t debug now = st \<and>
   submissions (handleSubmission st u t debug now) = submissions st"
  by (auto simp: handleSubmission_def MAX_SUBMISSION_LENGTH_def)

theorem handleSubmission_rejects_bad_length_witness:
  "handleSubmission annLedger ''bob'' [] False 7 = annLedger \<and>
   handleSubmission annLedger ''bob'' (replicate 201 CHR ''a'') True 7 = annLedger"
  using handleSubmission_rejects_bad_length [of "[]" annLedger "''bob''" False 7]
    handleSubmission_rejects_bad_length [of "replicate 201 CHR ''a''" annLedger "''bob''" True 7]
  by simp

text \<open>
  C7: in normal mode a second vote of the same voter for the same target changes nothing:
  voting twice in a row gives the state that voting once gives, so the target's voter set
  and vote count are those after the first vote; and more generally a vote of a voter who
  is already in the voter set of the submission found for the target returns the state
  unchanged.
\<close>

theorem handleVote_normal_idempotent:
  "handleVote (handleVote st voter target False) voter target False
     = handleVote st voter target False \<and>
   map votes (submissions (handleVote (handleVote st voter target False) voter target False))
     = map votes (submissions (handleVote st voter target False)) \<and>
   map getVoteCount
       (submissions (handleVote (handleVote st voter target False) voter target False))
     = map getVoteCount (submissions (handleVote st voter target False)) \<and>
   (\<forall>i. findIndex (sameUser target) (submissions st) = Some i \<and>
        toLowerCase voter |\<in>| votes (submissions st ! i) \<longrightarrow>
        handleVote st voter target False = st)"
  by (simp add: handleVote_twice handleVote_already)

theorem handleVote_normal_idempotent_witness:
  "findIndex (sameUser ''ann'') (submissions annLedger) = Some 0 \<and>
   toLowerCase ''Ann'' |\<in>| votes (submissions annLedger ! 0) \<and>
   handleVote annLedger ''Ann'' ''ann'' False = annLedger \<and>
   handleVote (handleVote annLedger ''bob'' ''ann'' False) ''bob'' ''ann'' False
     = handleVote annLedger ''bob'' ''ann'' False \<and>
   map getVoteCount (submissions (handleVote annLedger ''bob'' ''ann'' False)) = [2]"
proof -
  have found: "findIndex (sameUser ''ann'') (submissions annLedger) = Some 0"
    by (simp add: annLedger_submissions sameUser_def toLowerCase_examples)
  have voted: "toLowerCase ''Ann'' |\<in>| votes (submissions annLedger ! 0)"
    by (simp add: annLedger_submissions toLowerCase_examples)
  have count: "map getVoteCount (submissions (handleVote annLedger ''bob'' ''ann'' False)) = [2]"
    by (simp add: handleVote_def annLedger_submissions sameUser_def castVote_def
        toLowerCase_examples getVoteCount_def or_else_def fcard_finsert_if)
  show ?thesis
    using handleVote_normal_idempotent [of annLedger "''Ann''" "''ann''"]
      handleVote_normal_idempotent [of annLedger "''bob''" "''ann''"] found voted count
    by blast
qed

text \<open>
  C6, as amended: in debug mode, when the vote finds the voter already in the voter set of
  the target's submission, the vote count of that submission afterwards is its vote count
  before plus one, where the vote count is the debug counter if it is set and not zero
  and the size of the voter set otherwise; the voter set itself is unchanged.
\<close>

theorem handleVote_debug_duplicate_increments:
  "findIndex (sameUser target) (submissions st) = Some i \<Longrightarrow>
   toLowerCase voter |\<in>| votes (submissions st ! i) \<Longrightarrow>
   getVoteCount (submissions (handleVote st voter target True) ! i)
     = getVoteCount (submissions st ! i) + 1 \<and>
   votes (submissions (handleVote st voter target True) ! i) = votes (submissions st ! i)"
  by (auto simp: handleVote_def castVote_def Let_def getVoteCount_def or_else_def
      finsert_absorb dest: findIndex_Some split: option.splits)

theorem handleVote_debug_duplicate_increments_witness:
  "findIndex (sameUser ''ann'') (submissions debugLedger) = Some 0 \<and>
   toLowerCase ''ann'' |\<in>| votes (submissions debugLedger ! 0) \<and>
   getVoteCount (submissions debugLedger ! 0) = 2 \<and>
   getVoteCount (submissions (handleVote debugLedger ''ann'' ''ann'' True) ! 0) = 3"
proof -
  have found: "findIndex (sameUser ''ann'') (submissions debugLedger) = Some 0"
    by (simp add: debugLedger_submissions sameUser_def toLowerCase_examples)
  have voted: "toLowerCase ''ann'' |\<in>| votes (submissions debugLedger ! 0)"
    by (simp add: debugLedger_submissions toLowerCase_examples)
  have before: "getVoteCount (submissions debugLedger ! 0) = 2"
    by (simp add: debugLedger_submissions getVoteCount_def or_else_def)
  show ?thesis
    using handleVote_debug_duplicate_increments [OF found voted] found voted before by simp
qed

text \<open>
  The claim C6 as it was stated, with the maximum of the previous count and the size of
  the voter set, fails on the debug ledger: Ann's submission has the counter 2 and three
  voters, and her next duplicate vote makes the count 3, not \<open>max 2 3 + 1 = 4\<close>.
\<close>

theorem handleVote_debug_duplicate_not_max:
  "findIndex (sameUser ''ann'') (submissions debugLedger) = Some 0 \<and>
   toLowerCase ''ann'' |\<in>| votes (submissions debugLedger ! 0) \<and>
   getVoteCount (submissions debugLedger ! 0) = 2 \<and>
   fcard (votes (submissions debugLedger ! 0)) = 3 \<and>
   getVoteCount (submissions (handleVote debugLedger ''ann'' ''ann'' True) ! 0) = 3 \<and>
   getVoteCount (submissions (handleVote debugLedger ''ann'' ''ann'' True) ! 0)
     \<noteq> max (getVoteCount (submissions debugLedger ! 0))
           (fcard (votes (submissions debugLedger ! 0))) + 1"
  by (simp add: debugLedger_submissions sameUser_def toLowerCase_examples getVoteCount_def
      or_else_def handleVote_def castVote_def fcard_finsert_if)

section \<open>Properties of the phase machine and the timers\<close>

lemma pending_clearTimeout [simp]: "\<not> pending h (clearTimeout h st)"
  by (auto simp: pending_def clearTimeout_def)

lemma pending_update [simp]:
  "pending h (st\<lparr>voteTimer := a\<rparr>) = pending h st"
  "pending h (st\<lparr>phase := b\<rparr>) = pending h st"
  "pending h (st\<lparr>voteEndTime := c\<rparr>) = pending h st"
  by (simp_all add: pending_def)

lemma cancelVoteTimer_fields [simp]:
  "voteTimer (cancelVoteTimer st) = None"
  "phase (cancelVoteTimer st) = phase st"
  "submissions (cancelVoteTimer st) = submissions st"
  "voteEndTime (cancelVoteTimer st) = voteEndTime st"
  by (simp_all add: cancelVoteTimer_def clearTimeout_def split: option.splits)

lemma cancelVoteTimer_pending: "voteTimer st = Some h \<Longrightarrow> \<not> pending h (cancelVoteTimer st)"
  by (simp add: cancelVoteTimer_def)

lemma clearAutoRepeatTimer_fields [simp]:
  "autoRepeatTimer (clearAutoRepeatTimer st) = None"
  "nextVoteStartTime (clearAutoRepeatTimer st) = None"
  "phase (clearAutoRepeatTimer st) = phase st"
  "submissions (clearAutoRepeatTimer st) = submissions st"
  "config (clearAutoRepeatTimer st) = config st"
  "nextTimerId (clearAutoRepeatTimer st) = nextTimerId st"
  by (simp_all add: clearAutoRepeatTimer_def clearTimeout_def split: option.splits)

lemma clearAutoRepeatTimer_timers:
  "timers (clearAutoRepeatTimer st) =
     filter (\<lambda>t. Some (timerId t) \<noteq> autoRepeatTimer st) (timers st)"
  by (simp add: clearAutoRepeatTimer_def clearTimeout_def split: option.splits)

lemma handleStartVote_failed:
  "phase st \<noteq> Idle \<Longrightarrow>
   handleStartVote st now =
     (clearAutoRepeatTimer st)\<lparr>isPaused := False, pausedVoteRemaining := None,
                               pausedAutoRepeatRemaining := None\<rparr>"
  by (simp add: handleStartVote_def transitionToVote_def Let_def)

lemma handleStartVote_started:
  "phase st = Idle \<Longrightarrow>
   handleStartVote st now =
     (clearAutoRepeatTimer st)
       \<lparr>phase := Vote, submissions := [],
        voteTimer := Some (TimerHandle (nextTimerId st)),
        voteEndTime :=
          Some (now + max (voteDurationSeconds (config st)) MIN_VOTE_DURATION_SECONDS * 1000),
        isPaused := False, pausedVoteRemaining := None, pausedAutoRepeatRemaining := None,
        timers := timers (clearAutoRepeatTimer st) @
           [\<lparr>timerId = TimerHandle (nextTimerId st), callback = OnVoteEnd, setAt = now,
             delay = max (voteDurationSeconds (config st)) MIN_VOTE_DURATION_SECONDS * 1000\<rparr>],
        nextTimerId := Suc (nextTimerId st)\<rparr>"
  by (simp add: handleStartVote_def transitionToVote_def Let_def setVoteTimer_def
      setTimeout_def)

lemma votingState_fields:
  "phase votingState = Vote"
  "voteTimer votingState = Some (TimerHandle 1)"
  "voteEndTime votingState = Some 40000"
  "timers votingState =
     [\<lparr>timerId = TimerHandle 1, callback = OnVoteEnd, setAt = 0, delay = 40000\<rparr>]"
  by (simp_all add: votingState_def handleStartVote_started createInitialState_def
      initialConfig_def clearAutoRepeatTimer_timers DEFAULT_VOTE_DURATION_SECONDS_def
      MIN_VOTE_DURATION_SECONDS_def)

lemma cooldownState_fields:
  "phase cooldownState = Idle"
  "autoRepeatTimer cooldownState = Some (TimerHandle 1)"
  "nextVoteStartTime cooldownState = Some 30000"
  "nextTimerId cooldownState = 2"
  "voteDurationSeconds (config cooldownState) = 40"
  "timers cooldownState =
     [\<lparr>timerId = TimerHandle 1, callback = OnAutoRepeat, setAt = 0, delay = 30000\<rparr>]"
  by (simp_all add: cooldownState_def scheduleAutoRepeat_def createInitialState_def
      initialConfig_def truthy_def toNumber_def MIN_AUTO_REPEAT_SECONDS_def setTimeout_def
      setAutoRepeatTimer_def DEFAULT_VOTE_DURATION_SECONDS_def Let_def)

text \<open>
  C3: \<open>transitionToVote\<close> returns false and the unchanged state unless the phase is idle,
  and from idle returns true with the ledger emptied and the phase set to vote;
  \<open>transitionToCombine\<close> returns false and the unchanged state unless the phase is vote,
  and from vote returns true with the phase set to combine, the vote timer cancelled
  (its handle cleared and no longer pending) and the ledger kept; \<open>transitionToIdle\<close>
  ends in the idle phase from every phase, with the vote timer cancelled and the vote
  deadline cleared.
\<close>

theorem phase_transitions:
  "(phase st \<noteq> Idle \<longrightarrow> transitionToVote st = (False, st)) \<and>
   (phase st = Idle \<longrightarrow> transitionToVote st = (True, st\<lparr>phase := Vote, submissions := []\<rparr>)) \<and>
   (phase st \<noteq> Vote \<longrightarrow> transitionToCombine st = (False, st)) \<and>
   (phase st = Vote \<longrightarrow>
      fst (transitionToCombine st) \<and>
      phase (snd (transitionToCombine st)) = Combine \<and>
      voteTimer (snd (transitionToCombine st)) = None \<and>
      submissions (snd (transitionToCombine st)) = submissions st \<and>
      (\<forall>h. voteTimer st = Some h \<longrightarrow> \<not> pending h (snd (transitionToCombine st)))) \<and>
   phase (transitionToIdle st) = Idle \<and>
   voteTimer (transitionToIdle st) = None \<and>
   voteEndTime (transitionToIdle st) = None \<and>
   (\<forall>h. voteTimer st = Some h \<longrightarrow> \<not> pending h (transitionToIdle st))"
  by (simp add: transitionToVote_def transitionToCombine_def transitionToIdle_def
      cancelVoteTimer_pending)

theorem phase_transitions_witness:
  "transitionToVote createInitialState
     = (True, createInitialState\<lparr>phase := Vote, submissions := []\<rparr>) \<and>
   transitionToCombine createInitialState = (False, createInitialState) \<and>
   pending (TimerHandle 1) votingState \<and>
   transitionToVote votingState = (False, votingState) \<and>
   phase (snd (transitionToCombine votingState)) = Combine \<and>
   \<not> pending (TimerHandle 1) (snd (transitionToCombine votingState)) \<and>
   \<not> pending (TimerHandle 1) (transitionToIdle votingState)"
proof -
  have idle: "phase createInitialState = Idle"
    by (simp add: createInitialState_def)
  have isPending: "pending (TimerHandle 1) votingState"
    by (simp add: pending_def votingState_fields)
  show ?thesis
    using phase_transitions [of createInitialState] phase_transitions [of votingState]
      idle isPending votingState_fields(1,2)
    by simp
qed

text \<open>
  C10: whatever the phase, \<open>handleStartVote\<close> ends with \<open>isPaused\<close> false, both stored
  remaining durations cleared, no auto-repeat handle and no next-start time; the pending
  timeouts afterwards are those pending before without the one the auto-repeat handle
  referred to, plus the new vote timer when the vote started. When the phase is not idle,
  so that the transition fails, the result is exactly the state with the auto-repeat timer
  cleared and the pause fields reset: the clearing is not undone by the failed transition.
\<close>

theorem handleStartVote_clears_pause_state:
  "isPaused (handleStartVote st now) = False \<and>
   pausedVoteRemaining (handleStartVote st now) = None \<and>
   pausedAutoRepeatRemaining (handleStartVote st now) = None \<and>
   autoRepeatTimer (handleStartVote st now) = None \<and>
   nextVoteStartTime (handleStartVote st now) = None \<and>
   timers (handleStartVote st now) =
     filter (\<lambda>t. Some (timerId t) \<noteq> autoRepeatTimer st) (timers st) @
     (if phase st = Idle then
        [\<lparr>timerId = TimerHandle (nextTimerId st), callback = OnVoteEnd, setAt = now,
          delay = max (voteDurationSeconds (config st)) MIN_VOTE_DURATION_SECONDS * 1000\<rparr>]
      else []) \<and>
   (phase st \<noteq> Idle \<longrightarrow>
      handleStartVote st now =
        (clearAutoRepeatTimer st)\<lparr>isPaused := False, pausedVoteRemaining := None,
                                  pausedAutoRepeatRemaining := None\<rparr>)"
proof (cases "phase st = Idle")
  case True
  then show ?thesis
    by (simp add: handleStartVote_started clearAutoRepeatTimer_timers)
next
  case False
  then show ?thesis
    by (simp add: handleStartVote_failed clearAutoRepeatTimer_timers)
qed

theorem handleStartVote_clears_pause_state_witness:
  "autoRepeatTimer cooldownState = Some (TimerHandle 1) \<and>
   timers cooldownState =
     [\<lparr>timerId = TimerHandle 1, callback = OnAutoRepeat, setAt = 0, delay = 30000\<rparr>] \<and>
   autoRepeatTimer (handleStartVote cooldownState 5000) = None \<and>
   timers (handleStartVote cooldownState 5000) =
     [\<lparr>timerId = TimerHandle 2, callback = OnVoteEnd, setAt = 5000, delay = 40000\<rparr>] \<and>
   phase (cooldownState\<lparr>phase := Combine, isPaused := True\<rparr>) \<noteq> Idle \<and>
   handleStartVote (cooldownState\<lparr>phase := Combine, isPaused := True\<rparr>) 5000 =
     (clearAutoRepeatTimer (cooldownState\<lparr>phase := Combine, isPaused := True\<rparr>))
       \<lparr>isPaused := False, pausedVoteRemaining := None, pausedAutoRepeatRemaining := None\<rparr>"
  using handleStartVote_clears_pause_state [of cooldownState 5000]
    handleStartVote_clears_pause_state [of "cooldownState\<lparr>phase := Combine, isPaused := True\<rparr>" 5000]
  by (simp add: cooldownState_fields MIN_VOTE_DURATION_SECONDS_def)

text \<open>
  Pausing a running vote timer with time left, and resuming it at any instant \<open>t\<close>:
  the remaining time stored at the pause is the delay of the new timeout and the distance
  of the new deadline from \<open>t\<close>. The same holds for the auto-repeat countdown.
\<close>

lemma pause_resume_vote_timer:
  assumes "phase st = Vote" and "voteEndTime st = Some d" and "d \<noteq> 0" and "now < d"
  shows "pausedVoteRemaining (pauseTimers st now) = Some (d - now)"
    and "resumeTimers (pauseTimers st now) t sched =
           (cancelVoteTimer st)
             \<lparr>voteTimer := Some (TimerHandle (nextTimerId st)),
              voteEndTime := Some (t + (d - now)),
              pausedVoteRemaining := None,
              timers := timers (cancelVoteTimer st) @
                 [\<lparr>timerId = TimerHandle (nextTimerId st), callback = OnVoteEnd, setAt = t,
                   delay = d - now\<rparr>],
              nextTimerId := Suc (nextTimerId st)\<rparr>"
  using assms
  by (auto simp: pauseTimers_def resumeTimers_def truthy_def toNumber_def cancelVoteTimer_def
      clearTimeout_def setTimeout_def Let_def split: option.splits)

lemma pause_resume_auto_repeat_timer:
  assumes "phase st = Idle" and "nextVoteStartTime st = Some d" and "d \<noteq> 0" and "now < d"
  shows "pausedAutoRepeatRemaining (pauseTimers st now) = Some (d - now)"
    and "resumeTimers (pauseTimers st now) t sched =
           (clearAutoRepeatTimer st)
             \<lparr>autoRepeatTimer := Some (TimerHandle (nextTimerId st)),
              nextVoteStartTime := Some (t + (d - now)),
              pausedAutoRepeatRemaining := None,
              timers := timers (clearAutoRepeatTimer st) @
                 [\<lparr>timerId = TimerHandle (nextTimerId st), callback = OnAutoRepeat, setAt = t,
                   delay = d - now\<rparr>],
              nextTimerId := Suc (nextTimerId st)\<rparr>"
  using assms
  by (auto simp: pauseTimers_def resumeTimers_def truthy_def toNumber_def
      clearAutoRepeatTimer_def clearTimeout_def setTimeout_def setAutoRepeatTimer_def Let_def
      split: option.splits)

text \<open>
  C4 fails when the remaining time is 0. The vote below is paused at the instant of its
  deadline, before the timeout has run, so that the stored remaining time is
  \<open>max 0 (40000 - 40000) = 0\<close>. At the resume the test \<open>state.pausedVoteRemaining\<close> is
  falsy: no timeout is scheduled, the deadline stays at 40000 instead of moving to 50000,
  and the stored 0 is not cleared. The phase is still vote and nothing is left to end it.
\<close>

theorem resume_with_zero_remaining_schedules_nothing:
  "map_option
     (\<lambda>st. (phase st, isPaused st, pausedVoteRemaining st, voteEndTime st, voteTimer st,
            timers st))
     pausedAtDeadline
   = Some (Vote, False, Some 0, Some 40000, None, [])"
  by (simp add: pausedAtDeadline_def handleEvent_def handleStartVote_started
      createInitialState_def initialConfig_def clearAutoRepeatTimer_def
      DEFAULT_VOTE_DURATION_SECONDS_def MIN_VOTE_DURATION_SECONDS_def handleTogglePause_def
      togglePause_def pauseTimers_def resumeTimers_def truthy_def toNumber_def
      cancelVoteTimer_def clearTimeout_def Let_def)

text \<open>
  The auto-repeat countdown paused at its deadline is not resumed with the remaining 0
  either: the third branch of \<open>resumeTimers\<close> starts a whole new cooldown of 30 seconds.
\<close>

lemma resume_with_zero_remaining_restarts_cooldown:
  "nextVoteStartTime cooldownPausedAtDeadline = Some 80000 \<and>
   pausedAutoRepeatRemaining cooldownPausedAtDeadline = Some 0 \<and>
   timers cooldownPausedAtDeadline =
     [\<lparr>timerId = TimerHandle 2, callback = OnAutoRepeat, setAt = 50000, delay = 30000\<rparr>]"
  by (simp add: cooldownPausedAtDeadline_def handleTogglePause_def togglePause_def
      pauseTimers_def resumeTimers_def cooldownState_def scheduleAutoRepeat_def
      createInitialState_def initialConfig_def truthy_def toNumber_def
      MIN_AUTO_REPEAT_SECONDS_def setTimeout_def setAutoRepeatTimer_def
      clearAutoRepeatTimer_def clearTimeout_def Let_def)

section \<open>Properties of the tally\<close>

lemma compare_le_iff:
  "compareSubmissions a b \<le> 0 \<longleftrightarrow>
     getVoteCount b < getVoteCount a \<or>
     (getVoteCount b = getVoteCount a \<and> timestamp b \<le> timestamp a)"
  by (auto simp: compareSubmissions_def Let_def)

lemma insertSorted_set: "set (insertSorted cmp x ys) = insert x (set ys)"
  by (induction ys) auto

lemma sortBy_Cons: "sortBy cmp (x # xs) = insertSorted cmp x (sortBy cmp xs)"
  by (simp add: sortBy_def)

lemma sortBy_set: "set (sortBy cmp xs) = set xs"
  by (induction xs) (simp_all add: sortBy_Cons insertSorted_set, simp add: sortBy_def)

lemma insertSorted_hd:
  "hd (insertSorted cmp x ys) = (if ys = [] \<or> cmp x (hd ys) \<le> 0 then x else hd ys)"
  by (cases ys) auto

lemma sortBy_hd_first:
  "xs \<noteq> [] \<Longrightarrow> y \<in> set xs \<Longrightarrow>
   compareSubmissions (hd (sortBy compareSubmissions xs)) y \<le> 0"
proof (induction xs arbitrary: y)
  case Nil
  then show ?case by simp
next
  case (Cons x xs)
  show ?case
  proof (cases "xs = []")
    case True
    with Cons.prems show ?thesis
      by (simp add: sortBy_def compare_le_iff)
  next
    case False
    let ?m = "hd (sortBy compareSubmissions xs)"
    have nonempty: "sortBy compareSubmissions xs \<noteq> []"
      using False sortBy_set [of compareSubmissions xs] by auto
    have m: "\<And>z. z \<in> set xs \<Longrightarrow> compareSubmissions ?m z \<le> 0"
      using Cons.IH False by blast
    show ?thesis
    proof (cases "compareSubmissions x ?m \<le> 0")
      case True
      then have hd: "hd (sortBy compareSubmissions (x # xs)) = x"
        by (simp add: sortBy_Cons insertSorted_hd)
      show ?thesis
      proof (cases "y = x")
        case True
        then show ?thesis by (simp add: hd compare_le_iff)
      next
        case False
        then have "y \<in> set xs" using Cons.prems by simp
        then have "compareSubmissions ?m y \<le> 0" by (rule m)
        with \<open>compareSubmissions x ?m \<le> 0\<close> show ?thesis
          by (auto simp: hd compare_le_iff)
      qed
    next
      case notle: False
      then have hd: "hd (sortBy compareSubmissions (x # xs)) = ?m"
        using nonempty by (simp add: sortBy_Cons insertSorted_hd)
      show ?thesis
      proof (cases "y = x")
        case True
        then show ?thesis using notle by (auto simp: hd compare_le_iff)
      next
        case False
        then have "y \<in> set xs" using Cons.prems by simp
        then show ?thesis unfolding hd by (rule m)
      qed
    qed
  qed
qed

lemma sortBy_hd_mem: "xs \<noteq> [] \<Longrightarrow> hd (sortBy cmp xs) \<in> set xs"
  using sortBy_set [of cmp xs] by (metis hd_in_set set_empty)

lemma callSubmitToAID_sent:
  "SubmitToAID t \<in> set (fst (callSubmitToAID w t))"
  "SubmitToAID t' \<in> set (fst (callSubmitToAID w t)) \<Longrightarrow> t' = t"
  by (auto simp: callSubmitToAID_def split: option.splits)

lemma reportError_no_submit: "SubmitToAID t \<notin> set (reportError r)"
  by (auto simp: reportError_def split: option.splits js_error.splits)

text \<open>
  C1: without an API key and with a non-empty ledger, \<open>combineSubmissions\<close> returns, and
  the winner it picks, the first element of the sorted ledger, is a submission of the
  ledger with the greatest vote count and, among those with that vote count, with the
  latest timestamp; the winner's text is the action handed to the game client, and no
  other action is.
\<close>

theorem tally_winner_most_votes_then_latest:
  assumes "submissions st \<noteq> []" and "openRouterApiKey (config st) = []"
  shows "\<exists>winner sent.
           combineSubmissions w st = Some (sent, st) \<and>
           winner = hd (sortBy compareSubmissions (submissions st)) \<and>
           winner \<in> set (submissions st) \<and>
           (\<forall>s \<in> set (submissions st). getVoteCount s \<le> getVoteCount winner) \<and>
           (\<forall>s \<in> set (submissions st).
              getVoteCount s = getVoteCount winner \<longrightarrow> timestamp s \<le> timestamp winner) \<and>
           SubmitToAID (text' winner) \<in> set sent \<and>
           (\<forall>t. SubmitToAID t \<in> set sent \<longrightarrow> t = text' winner)"
proof -
  let ?winner = "hd (sortBy compareSubmissions (submissions st))"
  obtain sent failure where call: "callSubmitToAID w (text' ?winner) = (sent, failure)"
    by (cases "callSubmitToAID w (text' ?winner)")
  let ?all = "SendTwitchMessage (Winner (text' ?winner) (getVoteCount ?winner)) # sent
                @ reportError failure"
  have run: "combineSubmissions w st = Some (?all, st)"
    using assms call by (simp add: combineSubmissions_def Let_def)
  have first: "\<And>s. s \<in> set (submissions st) \<Longrightarrow> compareSubmissions ?winner s \<le> 0"
    using assms(1) by (rule sortBy_hd_first)
  have most: "\<forall>s \<in> set (submissions st). getVoteCount s \<le> getVoteCount ?winner"
    using first unfolding compare_le_iff by fastforce
  have latest: "\<forall>s \<in> set (submissions st).
      getVoteCount s = getVoteCount ?winner \<longrightarrow> timestamp s \<le> timestamp ?winner"
    using first unfolding compare_le_iff by fastforce
  have sub1: "SubmitToAID (text' ?winner) \<in> set ?all"
    using callSubmitToAID_sent(1) [where t = "text' ?winner" and w = w] call by simp
  have sub2: "\<forall>t. SubmitToAID t \<in> set ?all \<longrightarrow> t = text' ?winner"
    using callSubmitToAID_sent(2) [where t = "text' ?winner" and w = w] call
    by (auto simp: reportError_no_submit)
  show ?thesis
    using run sortBy_hd_mem [OF assms(1)] most latest sub1 sub2 by blast
qed

theorem tally_winner_most_votes_then_latest_witness:
  "submissions tallyExample \<noteq> [] \<and>
   openRouterApiKey (config tallyExample) = [] \<and>
   hd (sortBy compareSubmissions (submissions tallyExample)) = submissions tallyExample ! 1 \<and>
   combineSubmissions quietEnv tallyExample =
     Some ([SendTwitchMessage (Winner ''search the room'' 2), SubmitToAID ''search the room'',
            SendTwitchMessage ActionSubmitted], tallyExample) \<and>
   (\<exists>winner sent.
      combineSubmissions quietEnv tallyExample = Some (sent, tallyExample) \<and>
      winner = hd (sortBy compareSubmissions (submissions tallyExample)) \<and>
      (\<forall>s \<in> set (submissions tallyExample). getVoteCount s \<le> getVoteCount winner) \<and>
      SubmitToAID (text' winner) \<in> set sent)"
proof -
  have nonempty: "submissions tallyExample \<noteq> []"
    by (simp add: tallyExample_def)
  have nokey: "openRouterApiKey (config tallyExample) = []"
    by (simp add: tallyExample_def createInitialState_def initialConfig_def)
  have first: "hd (sortBy compareSubmissions (submissions tallyExample))
                 = submissions tallyExample ! 1"
    by (simp add: tallyExample_def sortBy_def compareSubmissions_def getVoteCount_def
        or_else_def fcard_finsert_if)
  have run: "combineSubmissions quietEnv tallyExample =
     Some ([SendTwitchMessage (Winner ''search the room'' 2), SubmitToAID ''search the room'',
            SendTwitchMessage ActionSubmitted], tallyExample)"
    by (simp add: combineSubmissions_def tallyExample_def createInitialState_def
        initialConfig_def sortBy_def compareSubmissions_def getVoteCount_def or_else_def
        fcard_finsert_if callSubmitToAID_def quietEnv_def reportError_def Let_def)
  from tally_winner_most_votes_then_latest [OF nonempty nokey, of quietEnv]
  have "\<exists>winner sent.
      combineSubmissions quietEnv tallyExample = Some (sent, tallyExample) \<and>
      winner = hd (sortBy compareSubmissions (submissions tallyExample)) \<and>
      (\<forall>s \<in> set (submissions tallyExample). getVoteCount s \<le> getVoteCount winner) \<and>
      SubmitToAID (text' winner) \<in> set sent"
    by blast
  with nonempty nokey first run show ?thesis by blast
qed

section \<open>Properties of the event handling\<close>

lemma isSubmissionOrVote_first:
  "isSubmissionOrVote t \<Longrightarrow>
   \<exists>c r. t = c # r \<and> (c = CHR ''+'' \<or> c = CHR ''@'' \<or> c = CHR ''>'')"
  by (cases t) (auto simp: isSubmissionOrVote_def matchVote_def matchSubmission_def
      split: if_splits)

lemma isSubmissionOrVote_not_command:
  assumes "isSubmissionOrVote t"
  shows "toLowerCase t \<noteq> ''!vote''" and "toLowerCase t \<noteq> ''!tally''"
proof -
  obtain c r where t: "t = c # r" and c: "c = CHR ''+'' \<or> c = CHR ''@'' \<or> c = CHR ''>''"
    using assms isSubmissionOrVote_first by blast
  have "lower_char c \<noteq> CHR ''!''"
    using c by (auto simp: lower_char_def)
  then show "toLowerCase t \<noteq> ''!vote''" and "toLowerCase t \<noteq> ''!tally''"
    by (simp_all add: t toLowerCase_def)
qed

lemma handleVote_ledger:
  "phase (handleVote st v t d) = phase st"
  "length (submissions (handleVote st v t d)) = length (submissions st)"
  by (simp_all add: handleVote_def split: option.splits)

lemma handleSubmission_ledger:
  "phase (handleSubmission st u t d now) = phase st"
  "length (submissions st) \<le> length (submissions (handleSubmission st u t d now))"
  by (simp_all add: handleSubmission_def Let_def split: option.splits)

lemma handleStartVote_ledger:
  "phase (handleStartVote st now) = (if phase st = Idle then Vote else phase st)"
  "submissions (handleStartVote st now) = (if phase st = Idle then [] else submissions st)"
  by (simp_all add: handleStartVote_def transitionToVote_def setVoteTimer_def setTimeout_def
      Let_def)

lemma handleEndVote_ledger:
  "phase (handleEndVote st) = (if phase st = Vote then Combine else phase st)"
  "submissions (handleEndVote st) = submissions st"
  by (simp_all add: handleEndVote_def transitionToCombine_def Let_def)

lemma scheduleAutoRepeat_ledger:
  "phase (scheduleAutoRepeat st now) = phase st"
  "submissions (scheduleAutoRepeat st now) = submissions st"
  by (simp_all add: scheduleAutoRepeat_def setTimeout_def setAutoRepeatTimer_def Let_def)

lemma handleTogglePause_ledger:
  "phase (handleTogglePause st now) = phase st"
  "submissions (handleTogglePause st now) = submissions st"
  by (simp_all add: handleTogglePause_def togglePause_def pauseTimers_def resumeTimers_def
      scheduleAutoRepeat_ledger setTimeout_def setAutoRepeatTimer_def Let_def)

lemma runCallback_ledger:
  "phase (runCallback cb (clearTimeout h st) now) =
     (case cb of OnVoteEnd \<Rightarrow> (if phase st = Vote then Combine else phase st)
      | OnAutoRepeat \<Rightarrow> (if phase st = Idle then Vote else phase st))"
  "submissions (runCallback cb (clearTimeout h st) now) =
     (case cb of OnVoteEnd \<Rightarrow> submissions st
      | OnAutoRepeat \<Rightarrow> (if phase st = Idle then [] else submissions st))"
  by (simp_all add: runCallback_def handleEndVote_ledger handleStartVote_ledger clearTimeout_def
      split: timer_callback.splits)

lemma combineSubmissions_ledger:
  "combineSubmissions w st = Some (sent, st1) \<Longrightarrow>
   phase st1 = phase st \<and> submissions st1 = submissions st"
  by (auto simp: combineSubmissions_def Let_def
      split: if_splits option.splits prod.splits sum.splits)

lemma combineAndSubmit_ledger:
  "combineAndSubmit w st now = Some (sent, st') \<Longrightarrow>
   phase st' = Idle \<and> submissions st' = submissions st"
  by (auto simp: combineAndSubmit_def scheduleAutoRepeat_ledger transitionToIdle_def
      dest: combineSubmissions_ledger split: option.splits prod.splits)

lemma chat_in_vote:
  assumes "phase st = Vote"
  shows "phase (handleYouTubeChatMessage st u t now) = Vote"
    and "length (submissions st) \<le> length (submissions (handleYouTubeChatMessage st u t now))"
    and "submissions (handleYouTubeChatMessage st u t now) \<noteq> submissions st
           \<Longrightarrow> isSubmissionOrVote t"
  using assms
  by (auto simp: handleYouTubeChatMessage_def handleVote_ledger handleSubmission_ledger
      isSubmissionOrVote_def split: option.splits)

lemma twitch_chat_ledger:
  "submissions (handleTwitchChatMessage st m now) \<noteq> submissions st \<Longrightarrow>
   (isSubmissionOrVote (msgText m) \<and> phase st = Vote \<and>
    phase (handleTwitchChatMessage st m now) = Vote \<and>
    length (submissions st) \<le> length (submissions (handleTwitchChatMessage st m now))) \<or>
   (phase st = Idle \<and> phase (handleTwitchChatMessage st m now) = Vote \<and>
    submissions (handleTwitchChatMessage st m now) = [])"
  by (auto simp: handleTwitchChatMessage_def handleVote_ledger handleSubmission_ledger
      handleStartVote_ledger handleEndVote_ledger isSubmissionOrVote_def Let_def
      split: option.splits if_splits)

lemma twitch_chat_phase:
  "phase st \<noteq> Vote \<Longrightarrow> phase (handleTwitchChatMessage st m now) = Vote \<Longrightarrow>
   submissions (handleTwitchChatMessage st m now) = []"
  by (auto simp: handleTwitchChatMessage_def handleStartVote_ledger handleEndVote_ledger Let_def
      split: option.splits if_splits)

lemma twitch_chat_discarded:
  "isSubmissionOrVote (msgText m) \<Longrightarrow> phase st \<noteq> Vote \<Longrightarrow>
   handleTwitchChatMessage st m now = st"
  by (simp add: handleTwitchChatMessage_def isSubmissionOrVote_not_command)

lemma ledger_step:
  assumes "handleEvent now e st = Some st'"
  shows "(chatEntry e \<and> phase st \<noteq> Vote \<longrightarrow> st' = st) \<and>
         (phase st \<noteq> Vote \<and> phase st' = Vote \<longrightarrow> submissions st' = []) \<and>
         (submissions st' \<noteq> submissions st \<longrightarrow>
            (chatEntry e \<and> phase st = Vote \<and> phase st' = Vote \<and>
             length (submissions st) \<le> length (submissions st')) \<or>
            (phase st = Idle \<and> phase st' = Vote \<and> submissions st' = []))"
proof (cases e)
  case (TwitchChat m)
  then have st': "st' = handleTwitchChatMessage st m now"
    using assms by (simp add: handleEvent_def)
  show ?thesis
    unfolding st' using twitch_chat_ledger [of st m now] twitch_chat_phase [of st m now]
      twitch_chat_discarded [of m st now]
    by (auto simp: TwitchChat chatEntry_def)
next
  case (YouTubeChat u t)
  then have st': "st' = (if youtubeUrl (config st) \<noteq> [] then handleYouTubeChatMessage st u t now else st)"
    using assms by (simp add: handleEvent_def)
  show ?thesis
  proof (cases "phase st = Vote")
    case True
    then show ?thesis
      unfolding st' using chat_in_vote [OF True, of u t now]
      by (auto simp: YouTubeChat chatEntry_def)
  next
    case False
    then show ?thesis
      unfolding st' by (simp add: handleYouTubeChatMessage_def)
  qed
next
  case StartVote
  then show ?thesis
    using assms
    by (auto simp: handleEvent_def handleStartVote_ledger chatEntry_def split: if_splits)
next
  case EndVote
  then show ?thesis
    using assms
    by (auto simp: handleEvent_def handleEndVote_ledger chatEntry_def split: if_splits)
next
  case TogglePause
  then show ?thesis
    using assms by (auto simp: handleEvent_def handleTogglePause_ledger chatEntry_def)
next
  case (SaveConfig cfg)
  then show ?thesis
    using assms by (auto simp: handleEvent_def chatEntry_def)
next
  case (ContextUpdate c)
  then show ?thesis
    using assms by (auto simp: handleEvent_def setContext_def chatEntry_def)
next
  case (TimerFired h)
  then show ?thesis
    using assms
    by (auto simp: handleEvent_def runCallback_ledger chatEntry_def
        split: option.splits if_splits timer_callback.splits)
next
  case (CombineSettled w)
  then show ?thesis
    using assms
    by (auto simp: handleEvent_def chatEntry_def dest: combineAndSubmit_ledger
        split: if_splits)
qed

lemma reachable_createInitialState: "reachable createInitialState"
  using reachable_init [of initialConfig] by (simp add: createInitialState_def)

text \<open>
  C5: in every reachable state, for every event that can happen there: a submission or a
  vote arriving by chat while the phase is not vote leaves the state, and so the ledger,
  unchanged; a step that enters the vote phase ends with the empty ledger; and a step
  that changes the ledger is either a chat submission or vote handled in the vote phase
  (which stays the vote phase and does not shorten the ledger) or the transition from idle
  into vote, which empties it.
\<close>

theorem ledger_mutated_only_in_vote_phase:
  assumes "reachable st" and "handleEvent now e st = Some st'"
  shows "(chatEntry e \<and> phase st \<noteq> Vote \<longrightarrow> st' = st \<and> submissions st' = submissions st) \<and>
         (phase st \<noteq> Vote \<and> phase st' = Vote \<longrightarrow> submissions st' = []) \<and>
         (submissions st' \<noteq> submissions st \<longrightarrow>
            (chatEntry e \<and> phase st = Vote \<and> phase st' = Vote \<and>
             length (submissions st) \<le> length (submissions st')) \<or>
            (phase st = Idle \<and> phase st' = Vote \<and> submissions st' = []))"
  using ledger_step [OF assms(2)] by blast

theorem ledger_mutated_only_in_vote_phase_witness:
  "reachable createInitialState \<and>
   chatEntry (TwitchChat doorMessage) \<and>
   phase createInitialState \<noteq> Vote \<and>
   handleEvent 5 (TwitchChat doorMessage) createInitialState = Some createInitialState \<and>
   handleEvent 0 StartVote createInitialState = Some votingState \<and>
   phase votingState = Vote \<and>
   submissions votingState = []"
proof -
  have entry: "chatEntry (TwitchChat doorMessage)"
    by (simp add: chatEntry_def doorMessage_def isSubmissionOrVote_def matchSubmission_def
        isSpace_def isLineTerminator_def)
  have idle: "phase createInitialState \<noteq> Vote"
    by (simp add: createInitialState_def)
  have chat: "\<exists>st'. handleEvent 5 (TwitchChat doorMessage) createInitialState = Some st'"
    by (simp add: handleEvent_def)
  have start: "handleEvent 0 StartVote createInitialState = Some votingState"
    by (simp add: handleEvent_def votingState_def)
  from chat obtain st' where
    st': "handleEvent 5 (TwitchChat doorMessage) createInitialState = Some st'" ..
  have "st' = createInitialState"
    using ledger_mutated_only_in_vote_phase [OF reachable_createInitialState st'] entry idle
    by blast
  moreover have "submissions votingState = []"
    using ledger_mutated_only_in_vote_phase [OF reachable_createInitialState start] idle
      votingState_fields(1)
    by blast
  ultimately show ?thesis
    using reachable_createInitialState entry idle st' start votingState_fields(1) by blast
qed

section \<open>Properties of the recursive merge\<close>

lemma batchSize_value: "batchSize = 320"
  by (simp add: batchSize_def targetBatchTokens_def tokensPerSubmission_def)

lemma batchLoop_acc: "batchLoop i xs acc = acc @ batchLoop i xs []"
proof (induction "length xs - i" arbitrary: i acc rule: less_induct)
  case less
  show ?case
  proof (cases "i < length xs")
    case True
    let ?b = "slice i (i + batchSize) xs"
    have smaller: "length xs - (i + batchSize) < length xs - i"
      using True by (simp add: batchSize_value)
    have "batchLoop i xs acc = batchLoop (i + batchSize) xs (acc @ [?b])"
      using True by (subst batchLoop.simps) simp
    also have "\<dots> = (acc @ [?b]) @ batchLoop (i + batchSize) xs []"
      using less [OF smaller] .
    also have "\<dots> = acc @ batchLoop (i + batchSize) xs ([] @ [?b])"
      using less [OF smaller, of "[] @ [?b]"] by simp
    also have "batchLoop (i + batchSize) xs ([] @ [?b]) = batchLoop i xs []"
      using True by (subst (2) batchLoop.simps) simp
    finally show ?thesis .
  next
    case False
    then show ?thesis by (subst (1 2) batchLoop.simps) simp
  qed
qed

lemma batchLoop_unfold:
  "batchLoop i xs [] =
     (if i < length xs then take 320 (drop i xs) # batchLoop (i + 320) xs [] else [])"
proof (cases "i < length xs")
  case True
  have "batchLoop i xs [] = batchLoop (i + batchSize) xs [slice i (i + batchSize) xs]"
    using True by (subst batchLoop.simps) simp
  also have "\<dots> = [slice i (i + batchSize) xs] @ batchLoop (i + batchSize) xs []"
    by (rule batchLoop_acc)
  finally show ?thesis
    using True by (simp add: slice_def batchSize_value)
next
  case False
  then show ?thesis by (subst batchLoop.simps) simp
qed

lemma batchLoop_concat: "concat (batchLoop i xs []) = drop i xs"
proof (induction "length xs - i" arbitrary: i rule: less_induct)
  case less
  show ?case
  proof (cases "i < length xs")
    case True
    then have "length xs - (i + 320) < length xs - i" by simp
    then have "concat (batchLoop (i + 320) xs []) = drop (i + 320) xs"
      by (rule less)
    moreover have "take 320 (drop i xs) @ drop (i + 320) xs = drop i xs"
      by (metis append_take_drop_id drop_drop add.commute)
    ultimately show ?thesis
      using True by (subst batchLoop_unfold) simp
  next
    case False
    then show ?thesis by (subst batchLoop_unfold) simp
  qed
qed

lemma ceil_step: "(m + 319 + 320) div 320 = Suc ((m + 319) div (320::nat))"
  by simp

lemma batch_count_step:
  fixes n i :: nat
  assumes "i < n"
  shows "Suc ((n - (i + 320) + 319) div 320) = (n - i + 319) div 320"
proof (cases "i + 320 \<le> n")
  case True
  then have "n - i + 319 = (n - (i + 320) + 319) + 320" by simp
  then show ?thesis by (simp only: ceil_step)
next
  case False
  then have a: "n - (i + 320) = 0" by simp
  from False assms have "320 \<le> n - i + 319" "n - i + 319 < 640" by linarith+
  then have "(n - i + 319) div 320 = 1"
    by (simp add: div_nat_eqI)
  then show ?thesis by (simp add: a)
qed

lemma batch_count_bounds:
  fixes n m :: nat
  assumes "m = (n + 319) div 320"
  shows "320 * m < n + 320" and "n \<le> 320 * m"
proof -
  have "n + 319 = 320 * m + (n + 319) mod 320"
    unfolding assms by simp
  moreover have "(n + 319) mod 320 < 320" by simp
  ultimately show "320 * m < n + 320" and "n \<le> 320 * m" by linarith+
qed

lemma batchLoop_length: "length (batchLoop i xs []) = (length xs - i + 319) div 320"
proof (induction "length xs - i" arbitrary: i rule: less_induct)
  case less
  show ?case
  proof (cases "i < length xs")
    case True
    then have "length xs - (i + 320) < length xs - i" by simp
    then have "length (batchLoop (i + 320) xs []) = (length xs - (i + 320) + 319) div 320"
      by (rule less)
    then have "length (take 320 (drop i xs) # batchLoop (i + 320) xs [])
                 = (length xs - i + 319) div 320"
      using batch_count_step [OF True] by simp
    then show ?thesis
      using True by (subst batchLoop_unfold) (simp only: if_True)
  next
    case False
    then show ?thesis by (subst batchLoop_unfold) simp
  qed
qed

lemma batchLoop_nth:
  "k < length (batchLoop i xs []) \<Longrightarrow>
   batchLoop i xs [] ! k = take 320 (drop (i + 320 * k) xs)"
proof (induction k arbitrary: i)
  case 0
  then have "i < length xs"
    by (subst (asm) batchLoop_unfold) (simp split: if_splits)
  then show ?case by (subst batchLoop_unfold) simp
next
  case (Suc k)
  then have i: "i < length xs"
    by (subst (asm) batchLoop_unfold) (simp split: if_splits)
  then have "k < length (batchLoop (i + 320) xs [])"
    using Suc.prems by (subst (asm) batchLoop_unfold) simp
  then have "batchLoop (i + 320) xs [] ! k = take 320 (drop (i + 320 + 320 * k) xs)"
    by (rule Suc.IH)
  then show ?case
    using i by (subst batchLoop_unfold) (simp add: algebra_simps)
qed

lemma makeBatches_concat: "concat (makeBatches xs) = xs"
  by (simp add: makeBatches_def batchLoop_concat)

lemma makeBatches_length: "length (makeBatches xs) = (length xs + 319) div 320"
  by (simp add: makeBatches_def batchLoop_length)

lemma makeBatches_nth:
  "k < length (makeBatches xs) \<Longrightarrow> makeBatches xs ! k = take 320 (drop (320 * k) xs)"
  by (simp add: makeBatches_def batchLoop_nth)

lemma makeBatches_sizes:
  assumes "k < length (makeBatches xs)"
  shows "0 < length (makeBatches xs ! k)"
    and "length (makeBatches xs ! k) \<le> 320"
    and "Suc k < length (makeBatches xs) \<Longrightarrow> length (makeBatches xs ! k) = 320"
proof -
  note bounds = batch_count_bounds [OF makeBatches_length [of xs]]
  have len: "length (makeBatches xs ! k) = min (length xs - 320 * k) 320"
    using assms by (simp add: makeBatches_nth)
  show "0 < length (makeBatches xs ! k)"
    unfolding len using assms bounds by linarith
  show "length (makeBatches xs ! k) \<le> 320"
    unfolding len by simp
  show "length (makeBatches xs ! k) = 320" if "Suc k < length (makeBatches xs)"
    unfolding len using that bounds by linarith
qed

lemma makeBatches_fewer:
  "1 < length (makeBatches xs) \<Longrightarrow> length (makeBatches xs) < length xs"
  using batch_count_bounds [OF makeBatches_length [of xs]] by linarith

lemma makeBatches_several:
  "batchSize < length xs \<Longrightarrow> 1 < length (makeBatches xs)"
  using batch_count_bounds [OF makeBatches_length [of xs]] unfolding batchSize_value
  by linarith

lemma makeBatches_700:
  "length xs = 700 \<Longrightarrow> map length (makeBatches xs) = [320, 320, 60]"
  unfolding makeBatches_def
  by (subst batchLoop_unfold, simp, subst batchLoop_unfold, simp, subst batchLoop_unfold, simp,
      subst batchLoop_unfold, simp)

lemma insertSorted_length: "length (insertSorted cmp x ys) = Suc (length ys)"
  by (induction ys) auto

lemma sortBy_length: "length (sortBy cmp xs) = length xs"
  by (induction xs) (simp_all add: sortBy_Cons insertSorted_length, simp add: sortBy_def)

lemma insertSorted_by_rank:
  fixes rank :: "nat \<Rightarrow> nat"
  assumes "sorted_wrt (\<lambda>a b. rank a \<le> rank b) ys"
  shows "sorted_wrt (\<lambda>a b. rank a \<le> rank b)
           (insertSorted (\<lambda>i j. int (rank i) - int (rank j)) x ys)"
  using assms
proof (induction ys)
  case Nil
  then show ?case by simp
next
  case (Cons y ys)
  show ?case
  proof (cases "rank x \<le> rank y")
    case True
    then have "\<forall>z \<in> set ys. rank x \<le> rank z"
      using Cons.prems by fastforce
    then show ?thesis
      using True Cons.prems by simp
  next
    case False
    then have "rank y \<le> rank x" by simp
    then show ?thesis
      using False Cons by (simp add: insertSorted_set)
  qed
qed

lemma sortBy_by_rank:
  fixes rank :: "nat \<Rightarrow> nat"
  shows "sorted_wrt (\<lambda>a b. rank a \<le> rank b) (sortBy (\<lambda>i j. int (rank i) - int (rank j)) xs)"
proof (induction xs)
  case Nil
  then show ?case by (simp add: sortBy_def)
next
  case (Cons x xs)
  then show ?case
    unfolding sortBy_Cons by (rule insertSorted_by_rank)
qed

lemma settleOrder_set: "set (settleOrder rank n) = {0..<n}"
  by (simp add: settleOrder_def sortBy_set)

lemma settleOrder_length: "length (settleOrder rank n) = n"
  by (simp add: settleOrder_def sortBy_length)

lemma settleOrder_sorted: "sorted_wrt (\<lambda>a b. rank a \<le> rank b) (settleOrder rank n)"
  unfolding settleOrder_def by (rule sortBy_by_rank)

lemma firstRejection_None:
  "firstRejection rs = None \<Longrightarrow> r \<in> set rs \<Longrightarrow> \<exists>x. r = Inr x"
  by (induction rs rule: firstRejection.induct) auto

lemma firstRejection_Some:
  "firstRejection rs = Some e \<Longrightarrow>
   \<exists>p < length rs. rs ! p = Inl e \<and> (\<forall>q < p. \<exists>x. rs ! q = Inr x)"
proof (induction rs rule: firstRejection.induct)
  case 1
  then show ?case by simp
next
  case (2 e' rs)
  then show ?case by auto
next
  case (3 x rs)
  then obtain p where p: "p < length rs" "rs ! p = Inl e" "\<forall>q < p. \<exists>y. rs ! q = Inr y"
    by auto
  have "\<forall>q < Suc p. \<exists>y. (Inr x # rs) ! q = Inr y"
    using p(3) by (auto simp: nth_Cons split: nat.splits)
  then show ?case
    using p(1,2) by (intro exI [of _ "Suc p"]) simp
qed

lemma fulfilled_all:
  "\<forall>r \<in> set rs. \<exists>x. r = Inr x \<Longrightarrow>
   length (fulfilled rs) = length rs \<and> (\<forall>k < length rs. rs ! k = Inr (fulfilled rs ! k))"
  by (induction rs rule: fulfilled.induct) (auto simp: nth_Cons split: nat.splits)

lemma promiseAll_Inr:
  assumes "promiseAll rank rs = Inr xs"
  shows "length xs = length rs \<and> (\<forall>k < length rs. rs ! k = Inr (xs ! k))"
proof -
  let ?settled = "map (\<lambda>i. rs ! i) (settleOrder rank (length rs))"
  have none: "firstRejection ?settled = None" and xs: "xs = fulfilled rs"
    using assms by (auto simp: promiseAll_def split: option.splits)
  have "\<exists>x. r = Inr x" if mem: "r \<in> set rs" for r
  proof -
    obtain i where "i < length rs" "r = rs ! i"
      using mem unfolding in_set_conv_nth by blast
    then have "r \<in> set ?settled"
      by (simp add: settleOrder_set)
    with none show ?thesis by (rule firstRejection_None)
  qed
  then show ?thesis
    unfolding xs by (intro fulfilled_all) blast
qed

lemma promiseAll_Inl:
  assumes "promiseAll rank rs = Inl e"
  shows "\<exists>i < length rs. rs ! i = Inl e \<and>
           (\<forall>j < length rs. (\<exists>e'. rs ! j = Inl e') \<longrightarrow> rank i \<le> rank j)"
proof -
  let ?order = "settleOrder rank (length rs)"
  let ?settled = "map (\<lambda>i. rs ! i) ?order"
  have "firstRejection ?settled = Some e"
    using assms by (auto simp: promiseAll_def split: option.splits)
  then obtain p where p: "p < length ?settled" "?settled ! p = Inl e"
      "\<forall>q < p. \<exists>x. ?settled ! q = Inr x"
    using firstRejection_Some by blast
  have plen: "p < length ?order"
    using p(1) by simp
  let ?i = "?order ! p"
  have i: "?i < length rs"
    using plen settleOrder_set [of rank "length rs"] nth_mem [OF plen] by auto
  have rej: "rs ! ?i = Inl e"
    using p(2) plen by simp
  have first: "rank ?i \<le> rank j" if j: "j < length rs" and jrej: "rs ! j = Inl e'" for j e'
  proof -
    have "j \<in> set ?order"
      using j by (simp add: settleOrder_set)
    then obtain q where q: "q < length ?order" "?order ! q = j"
      by (auto simp: in_set_conv_nth)
    have "\<not> q < p"
    proof
      assume "q < p"
      then obtain x where "?settled ! q = Inr x"
        using p(3) by blast
      then show False
        using q jrej by simp
    qed
    then consider "p = q" | "p < q" by linarith
    then show ?thesis
    proof cases
      case 1
      then show ?thesis using q(2) by simp
    next
      case 2
      then show ?thesis
        using sorted_wrt_nth_less [OF settleOrder_sorted [of rank "length rs"] 2 q(1)] q(2)
        by simp
    qed
  qed
  show ?thesis
    using i rej first by blast
qed

lemma untilRejection_subset: "set (untilRejection xs) \<subseteq> set xs"
  by (induction xs rule: untilRejection.induct) auto

lemma untilRejection_all:
  "\<forall>p \<in> set xs. \<exists>x. snd p = Inr x \<Longrightarrow> untilRejection xs = xs"
  by (induction xs rule: untilRejection.induct) auto

lemma mergeBatch_Inl:
  "mergeBatch w n cfg ctx lastAIOutput batch idx = Inl e \<longleftrightarrow>
   batchOutcome w n cfg ctx lastAIOutput batch = Inl e"
  by (simp add: mergeBatch_def split: sum.splits)

lemma mergeBatch_Inr:
  assumes "mergeBatch w n cfg ctx lastAIOutput batch idx = Inr s"
  shows "user s = ''Batch'' @ decimal (idx + 1)"
    and "votes s = {||}"
    and "timestamp s = dateNow w n"
    and "debugVoteCount s = None"
    and "batchOutcome w n cfg ctx lastAIOutput batch = Inr (text' s)"
  using assms by (auto simp: mergeBatch_def split: sum.splits)

lemma mergeBatches_nth:
  "k < length batches \<Longrightarrow>
   map (\<lambda>(idx, batch). mergeBatch w (n + idx) cfg ctx lastAIOutput batch idx)
     (enumerate 0 batches) ! k
   = mergeBatch w (n + k) cfg ctx lastAIOutput (batches ! k) k"
  by (simp add: nth_enumerate_eq)

lemma mergeBatches_Inr:
  assumes "mergeBatches w n cfg ctx lastAIOutput batches = Inr merged"
  shows "length merged = length batches"
    and "k < length batches \<Longrightarrow>
         mergeBatch w (n + k) cfg ctx lastAIOutput (batches ! k) k = Inr (merged ! k)"
proof -
  let ?rs = "map (\<lambda>(idx, batch). mergeBatch w (n + idx) cfg ctx lastAIOutput batch idx)
               (enumerate 0 batches)"
  have all: "length merged = length ?rs \<and> (\<forall>k < length ?rs. ?rs ! k = Inr (merged ! k))"
    using assms unfolding mergeBatches_def by (rule promiseAll_Inr)
  then show "length merged = length batches" by simp
  show "mergeBatch w (n + k) cfg ctx lastAIOutput (batches ! k) k = Inr (merged ! k)"
    if "k < length batches"
    using all that mergeBatches_nth [OF that, of w n cfg ctx lastAIOutput] by simp
qed

lemma mergeBatches_Inl:
  assumes "mergeBatches w n cfg ctx lastAIOutput batches = Inl e"
  shows "\<exists>i < length batches.
           batchOutcome w (n + i) cfg ctx lastAIOutput (batches ! i) = Inl e \<and>
           (\<forall>j < length batches.
              (\<exists>e'. batchOutcome w (n + j) cfg ctx lastAIOutput (batches ! j) = Inl e') \<longrightarrow>
              settleRank w (n + i) \<le> settleRank w (n + j))"
proof -
  define rs where
    "rs = map (\<lambda>(idx, batch). mergeBatch w (n + idx) cfg ctx lastAIOutput batch idx)
            (enumerate 0 batches)"
  define rank where "rank = (\<lambda>i. settleRank w (n + i))"
  have len: "length rs = length batches"
    by (simp add: rs_def)
  have nth: "rs ! k = mergeBatch w (n + k) cfg ctx lastAIOutput (batches ! k) k"
    if "k < length batches" for k
    unfolding rs_def using that by (rule mergeBatches_nth)
  have "promiseAll rank rs = Inl e"
    using assms by (simp add: mergeBatches_def rs_def rank_def)
  then obtain i where i: "i < length rs" "rs ! i = Inl e"
      and first: "\<And>j e'. j < length rs \<Longrightarrow> rs ! j = Inl e' \<Longrightarrow> rank i \<le> rank j"
    using promiseAll_Inl [of rank rs e] by blast
  have ib: "i < length batches"
    using i(1) len by simp
  have out: "batchOutcome w (n + i) cfg ctx lastAIOutput (batches ! i) = Inl e"
    using i(2) nth [OF ib] by (simp add: mergeBatch_Inl)
  have "settleRank w (n + i) \<le> settleRank w (n + j)"
    if j: "j < length batches"
      and rej: "batchOutcome w (n + j) cfg ctx lastAIOutput (batches ! j) = Inl e'" for j e'
  proof -
    have "rs ! j = Inl e'"
      using rej nth [OF j] by (simp add: mergeBatch_Inl)
    moreover have "j < length rs"
      using j len by simp
    ultimately have "rank i \<le> rank j"
      by (rule first [rotated])
    then show ?thesis
      by (simp add: rank_def)
  qed
  then show ?thesis
    using ib out by blast
qed

lemma mergeBatches_wrapped:
  assumes "mergeBatches w n cfg ctx lastAIOutput batches = Inr merged"
    and "k < length merged"
  shows "user (merged ! k) = ''Batch'' @ decimal (k + 1)"
    and "timestamp (merged ! k) = dateNow w (n + k)"
    and "votes (merged ! k) = {||}"
    and "batchOutcome w (n + k) cfg ctx lastAIOutput (batches ! k) = Inr (text' (merged ! k))"
proof -
  have "k < length batches"
    using assms mergeBatches_Inr(1) by fastforce
  then have one: "mergeBatch w (n + k) cfg ctx lastAIOutput (batches ! k) k = Inr (merged ! k)"
    using assms(1) by (rule mergeBatches_Inr(2) [rotated])
  show "user (merged ! k) = ''Batch'' @ decimal (k + 1)"
    and "timestamp (merged ! k) = dateNow w (n + k)"
    and "votes (merged ! k) = {||}"
    and "batchOutcome w (n + k) cfg ctx lastAIOutput (batches ! k) = Inr (text' (merged ! k))"
    using mergeBatch_Inr(1,2,3,5) [OF one] by simp_all
qed

lemma batchIssues_length: "length (batchIssues k cfg ctx lastAIOutput batches) = length batches"
  by (simp add: batchIssues_def)

lemma batchIssues_nth:
  "i < length batches \<Longrightarrow>
   batchIssues k cfg ctx lastAIOutput batches ! i =
     Issued (k + i)
       (buildSystemPrompt (mergePartyName cfg), batchPrompt cfg ctx lastAIOutput (batches ! i))"
  by (simp add: batchIssues_def nth_enumerate_eq)

lemma batchSettles_event:
  assumes "ev \<in> set (batchSettles w k cfg ctx lastAIOutput batches)"
  shows "\<exists>i < length batches.
           ev = Settled (k + i) (batchOutcome w (k + i) cfg ctx lastAIOutput (batches ! i))"
proof -
  let ?all = "map (\<lambda>i. (i, batchOutcome w (k + i) cfg ctx lastAIOutput (batches ! i)))
                (settleOrder (\<lambda>i. settleRank w (k + i)) (length batches))"
  obtain p where p: "p \<in> set (untilRejection ?all)" "ev = Settled (k + fst p) (snd p)"
    using assms by (auto simp: batchSettles_def)
  then have "p \<in> set ?all"
    using untilRejection_subset by blast
  then obtain i where "i < length batches"
      "p = (i, batchOutcome w (k + i) cfg ctx lastAIOutput (batches ! i))"
    by (auto simp: settleOrder_set)
  then show ?thesis
    using p(2) by auto
qed

lemma batchSettles_all:
  assumes "mergeBatches w k cfg ctx lastAIOutput batches = Inr merged"
  shows "batchSettles w k cfg ctx lastAIOutput batches =
           map (\<lambda>i. Settled (k + i) (Inr (text' (merged ! i))))
             (settleOrder (\<lambda>i. settleRank w (k + i)) (length batches))"
proof -
  let ?order = "settleOrder (\<lambda>i. settleRank w (k + i)) (length batches)"
  let ?all = "map (\<lambda>i. (i, batchOutcome w (k + i) cfg ctx lastAIOutput (batches ! i))) ?order"
  have out: "batchOutcome w (k + i) cfg ctx lastAIOutput (batches ! i) = Inr (text' (merged ! i))"
    if "i \<in> set ?order" for i
  proof -
    have "i < length merged"
      using that mergeBatches_Inr(1) [OF assms] by (simp add: settleOrder_set)
    then show ?thesis
      using mergeBatches_wrapped(4) [OF assms] by blast
  qed
  then have "\<forall>p \<in> set ?all. \<exists>x. snd p = Inr x"
    by auto
  then have "untilRejection ?all = ?all"
    by (rule untilRejection_all)
  then show ?thesis
    using out by (simp add: batchSettles_def)
qed

lemma recursiveMerge_single_call:
  assumes "1 < length subs" and "length subs \<le> batchSize"
  shows "\<exists>r. recursiveMerge w calls cfg ctx subs lastAIOutput =
           Some (calls @
                 [Issued (issuedCount calls)
                    (buildSystemPrompt (mergePartyName cfg),
                     batchPrompt cfg ctx lastAIOutput subs),
                  Settled (issuedCount calls)
                    (batchOutcome w (issuedCount calls) cfg ctx lastAIOutput subs)], r)"
  using assms by (subst recursiveMerge.simps) (simp add: Let_def)

lemma recursiveMerge_split_failed:
  assumes "batchSize < length subs"
    and "mergeBatches w (issuedCount calls) cfg ctx lastAIOutput (makeBatches subs) = Inl e"
  shows "recursiveMerge w calls cfg ctx subs lastAIOutput =
           Some (calls @ batchIssues (issuedCount calls) cfg ctx lastAIOutput (makeBatches subs)
                   @ batchSettles w (issuedCount calls) cfg ctx lastAIOutput (makeBatches subs),
                 Inl e)"
  using assms by (subst recursiveMerge.simps) (simp add: Let_def batchSize_value)

lemma recursiveMerge_split:
  assumes "batchSize < length subs"
    and "mergeBatches w (issuedCount calls) cfg ctx lastAIOutput (makeBatches subs) = Inr merged"
  shows "recursiveMerge w calls cfg ctx subs lastAIOutput =
           recursiveMerge w
             (calls @ batchIssues (issuedCount calls) cfg ctx lastAIOutput (makeBatches subs)
                @ batchSettles w (issuedCount calls) cfg ctx lastAIOutput (makeBatches subs))
             cfg ctx merged None"
  using assms by (subst recursiveMerge.simps) (simp add: Let_def batchSize_value)

lemma recursiveMerge_extends:
  "\<exists>rest r. recursiveMerge w calls cfg ctx subs lastAIOutput = Some (calls @ rest, r)"
proof (induction "length subs" arbitrary: subs calls lastAIOutput rule: less_induct)
  case less
  consider "length subs = 1" | "length subs \<noteq> 1" "length subs \<le> batchSize"
    | "batchSize < length subs"
    by linarith
  then show ?case
  proof cases
    case 1
    then show ?thesis by (subst recursiveMerge.simps) simp
  next
    case 2
    then show ?thesis by (subst recursiveMerge.simps) (simp add: Let_def)
  next
    case 3
    let ?round = "batchIssues (issuedCount calls) cfg ctx lastAIOutput (makeBatches subs)
                    @ batchSettles w (issuedCount calls) cfg ctx lastAIOutput (makeBatches subs)"
    show ?thesis
    proof (cases "mergeBatches w (issuedCount calls) cfg ctx lastAIOutput (makeBatches subs)")
      case (Inl e)
      then show ?thesis using recursiveMerge_split_failed [OF 3] by simp
    next
      case (Inr merged)
      have "length merged = length (makeBatches subs)"
        using Inr by (rule mergeBatches_Inr(1))
      then have "length merged < length subs"
        using makeBatches_fewer [of subs] makeBatches_several [OF 3] by simp
      then obtain rest r where
        "recursiveMerge w (calls @ ?round) cfg ctx merged None = Some ((calls @ ?round) @ rest, r)"
        using less by blast
      then have "recursiveMerge w calls cfg ctx subs lastAIOutput
                   = Some (calls @ (?round @ rest), r)"
        using recursiveMerge_split [OF 3 Inr] by simp
      then show ?thesis by blast
    qed
  qed
qed

lemma recursiveMerge_returns:
  "\<exists>r. recursiveMerge w calls cfg ctx subs lastAIOutput = Some r"
  using recursiveMerge_extends [of w calls cfg ctx subs lastAIOutput] by blast

lemma recursiveMerge_round_first:
  assumes "batchSize < length subs"
  shows "\<exists>rest r. recursiveMerge w calls cfg ctx subs lastAIOutput =
           Some (calls @ batchIssues (issuedCount calls) cfg ctx lastAIOutput (makeBatches subs)
                   @ batchSettles w (issuedCount calls) cfg ctx lastAIOutput (makeBatches subs)
                   @ rest, r)"
proof (cases "mergeBatches w (issuedCount calls) cfg ctx lastAIOutput (makeBatches subs)")
  case (Inl e)
  then show ?thesis using recursiveMerge_split_failed [OF assms] by simp
next
  case (Inr merged)
  let ?round = "batchIssues (issuedCount calls) cfg ctx lastAIOutput (makeBatches subs)
                  @ batchSettles w (issuedCount calls) cfg ctx lastAIOutput (makeBatches subs)"
  obtain rest r where
    "recursiveMerge w (calls @ ?round) cfg ctx merged None = Some ((calls @ ?round) @ rest, r)"
    using recursiveMerge_extends by blast
  then show ?thesis
    using recursiveMerge_split [OF assms Inr] by simp
qed

lemma makeBatches_321:
  "makeBatches (replicate 321 s) = [replicate 320 s, [s]]"
  unfolding makeBatches_def
  by (subst batchLoop_unfold, simp, subst batchLoop_unfold, simp, subst batchLoop_unfold, simp)

lemma settleOrder_two:
  "settleOrder (\<lambda>i. i) (Suc (Suc 0)) = [0, Suc 0]"
  "settleOrder ((-) 10) (Suc (Suc 0)) = [Suc 0, 0]"
  by (simp_all add: settleOrder_def sortBy_def)

lemma mergeBatches_321:
  "mergeBatches quietEnv 0 keyedConfig None None (makeBatches (replicate 321 sampleSubmission))
     = Inr [\<lparr>user = ''Batch1'', text' = ''ok'', timestamp = 0, votes = {||},
              debugVoteCount = None\<rparr>,
            \<lparr>user = ''Batch2'', text' = ''ok'', timestamp = 0, votes = {||},
              debugVoteCount = None\<rparr>]"
  by (simp add: settleOrder_two makeBatches_321 mergeBatches_def promiseAll_def enumerate_simps mergeBatch_def
      batchOutcome_def callOpenRouter_def keyedConfig_def initialConfig_def quietEnv_def
      decimal.simps)

lemma mergeBatches_321_failing:
  "mergeBatches failingEnv 0 keyedConfig None None
     (makeBatches (replicate 321 sampleSubmission)) = Inl (Error ''early'')"
  by (simp add: settleOrder_two makeBatches_321 mergeBatches_def promiseAll_def enumerate_simps mergeBatch_def
      batchOutcome_def callOpenRouter_def keyedConfig_def initialConfig_def failingEnv_def)

lemma issuedCount_append: "issuedCount (xs @ ys) = issuedCount xs + issuedCount ys"
  by (induction xs rule: issuedCount.induct) simp_all

lemma issuedCount_issues:
  "issuedCount (map (\<lambda>(idx, batch). Issued (f idx) (g batch)) xs) = length xs"
  by (induction xs) (simp_all split: prod.splits)

lemma issuedCount_settles: "issuedCount (map (\<lambda>(i, r). Settled (f i) r) xs) = 0"
  by (induction xs) (simp_all split: prod.splits)

lemma issuedCount_round:
  "issuedCount (batchIssues k cfg ctx lastAIOutput batches) = length batches"
  "issuedCount (batchSettles w k cfg ctx lastAIOutput batches) = 0"
  by (simp_all add: batchIssues_def batchSettles_def issuedCount_issues issuedCount_settles)

lemma batchSettles_321_failing:
  "batchSettles failingEnv 0 keyedConfig None None
     (makeBatches (replicate 321 sampleSubmission)) = [Settled 1 (Inl (Error ''early''))]"
  by (simp add: settleOrder_two makeBatches_321 batchSettles_def batchOutcome_def
      callOpenRouter_def keyedConfig_def initialConfig_def failingEnv_def)

text \<open>
  C2, as amended: the batch size is \<open>max 3 (16000 div 50) = 320\<close>. A list of more than
  one and at most 320 submissions is merged by exactly one call, built from the whole
  list. A longer list is cut into contiguous batches, batch \<open>k\<close> being the 320
  submissions from position \<open>320 * k\<close> on (fewer in the last batch, none empty), so that
  700 submissions give batches of 320, 320 and 60. One call is issued per batch, each with
  the caller's most recent action, and the calls run concurrently: the trace of the merge
  continues with the issue of all these calls, in the order of the batches, and only then
  with calls settling, each event being the outcome of one call of the round. When a call
  fails, the merge fails with the error of the failed call that settled first, whatever
  its batch. When all calls return, they have settled in the order of their ranks, batch
  \<open>k\<close> is wrapped as a submission of user \<open>Batch<k+1>\<close> holding the result of its call,
  with the clock reading taken at its return as timestamp and an empty voter set, and the
  merge continues as the merge of the wrapped list with no most recent action.
\<close>

theorem recursiveMerge_batching:
  "batchSize = max 3 (16000 div 50) \<and> batchSize = 320 \<and>
   (1 < length subs \<and> length subs \<le> batchSize \<longrightarrow>
      (\<exists>r. recursiveMerge w calls cfg ctx subs lastAIOutput =
             Some (calls @
                   [Issued (issuedCount calls)
                      (buildSystemPrompt (mergePartyName cfg),
                       batchPrompt cfg ctx lastAIOutput subs),
                    Settled (issuedCount calls)
                      (batchOutcome w (issuedCount calls) cfg ctx lastAIOutput subs)], r))) \<and>
   (batchSize < length subs \<longrightarrow>
      concat (makeBatches subs) = subs \<and>
      length (makeBatches subs) = (length subs + 319) div 320 \<and>
      (\<forall>k < length (makeBatches subs).
         makeBatches subs ! k = take 320 (drop (320 * k) subs) \<and>
         0 < length (makeBatches subs ! k) \<and>
         length (makeBatches subs ! k) \<le> 320 \<and>
         (Suc k < length (makeBatches subs) \<longrightarrow> length (makeBatches subs ! k) = 320)) \<and>
      (length subs = 700 \<longrightarrow> map length (makeBatches subs) = [320, 320, 60]) \<and>
      length (batchIssues (issuedCount calls) cfg ctx lastAIOutput (makeBatches subs))
        = length (makeBatches subs) \<and>
      (\<forall>i < length (makeBatches subs).
         batchIssues (issuedCount calls) cfg ctx lastAIOutput (makeBatches subs) ! i =
           Issued (issuedCount calls + i)
             (buildSystemPrompt (mergePartyName cfg),
              batchPrompt cfg ctx lastAIOutput (makeBatches subs ! i))) \<and>
      (\<forall>ev \<in> set (batchSettles w (issuedCount calls) cfg ctx lastAIOutput (makeBatches subs)).
         \<exists>i < length (makeBatches subs).
           ev = Settled (issuedCount calls + i)
                  (batchOutcome w (issuedCount calls + i) cfg ctx lastAIOutput
                     (makeBatches subs ! i))) \<and>
      (\<exists>rest r.
         recursiveMerge w calls cfg ctx subs lastAIOutput =
           Some (calls @ batchIssues (issuedCount calls) cfg ctx lastAIOutput (makeBatches subs)
                   @ batchSettles w (issuedCount calls) cfg ctx lastAIOutput (makeBatches subs)
                   @ rest, r)) \<and>
      (\<forall>e. mergeBatches w (issuedCount calls) cfg ctx lastAIOutput (makeBatches subs) = Inl e \<longrightarrow>
           recursiveMerge w calls cfg ctx subs lastAIOutput =
             Some (calls
                     @ batchIssues (issuedCount calls) cfg ctx lastAIOutput (makeBatches subs)
                     @ batchSettles w (issuedCount calls) cfg ctx lastAIOutput (makeBatches subs),
                   Inl e) \<and>
           (\<exists>i < length (makeBatches subs).
              batchOutcome w (issuedCount calls + i) cfg ctx lastAIOutput (makeBatches subs ! i)
                = Inl e \<and>
              (\<forall>j < length (makeBatches subs).
                 (\<exists>e'. batchOutcome w (issuedCount calls + j) cfg ctx lastAIOutput
                         (makeBatches subs ! j) = Inl e') \<longrightarrow>
                 settleRank w (issuedCount calls + i) \<le> settleRank w (issuedCount calls + j)))) \<and>
      (\<forall>merged.
         mergeBatches w (issuedCount calls) cfg ctx lastAIOutput (makeBatches subs) = Inr merged
         \<longrightarrow>
           recursiveMerge w calls cfg ctx subs lastAIOutput =
             recursiveMerge w
               (calls @ batchIssues (issuedCount calls) cfg ctx lastAIOutput (makeBatches subs)
                  @ batchSettles w (issuedCount calls) cfg ctx lastAIOutput (makeBatches subs))
               cfg ctx merged None \<and>
           length merged = length (makeBatches subs) \<and>
           (\<forall>k < length merged.
              user (merged ! k) = ''Batch'' @ decimal (k + 1) \<and>
              timestamp (merged ! k) = dateNow w (issuedCount calls + k) \<and>
              votes (merged ! k) = {||} \<and>
              batchOutcome w (issuedCount calls + k) cfg ctx lastAIOutput (makeBatches subs ! k)
                = Inr (text' (merged ! k))) \<and>
           batchSettles w (issuedCount calls) cfg ctx lastAIOutput (makeBatches subs) =
             map (\<lambda>i. Settled (issuedCount calls + i) (Inr (text' (merged ! i))))
               (settleOrder (\<lambda>i. settleRank w (issuedCount calls + i))
                  (length (makeBatches subs))) \<and>
           set (settleOrder (\<lambda>i. settleRank w (issuedCount calls + i))
                  (length (makeBatches subs))) = {0..<length (makeBatches subs)} \<and>
           sorted_wrt (\<lambda>a b. settleRank w (issuedCount calls + a)
                               \<le> settleRank w (issuedCount calls + b))
             (settleOrder (\<lambda>i. settleRank w (issuedCount calls + i))
                (length (makeBatches subs)))))"
  apply (intro conjI impI allI ballI)
  subgoal by (simp add: batchSize_value)
  subgoal by (rule batchSize_value)
  subgoal using recursiveMerge_single_call by blast
  subgoal by (rule makeBatches_concat)
  subgoal by (rule makeBatches_length)
  subgoal by (rule makeBatches_nth)
  subgoal by (rule makeBatches_sizes(1))
  subgoal by (rule makeBatches_sizes(2))
  subgoal by (rule makeBatches_sizes(3))
  subgoal by (rule makeBatches_700)
  subgoal by (rule batchIssues_length)
  subgoal by (rule batchIssues_nth)
  subgoal by (rule batchSettles_event)
  subgoal by (rule recursiveMerge_round_first)
  subgoal by (rule recursiveMerge_split_failed)
  subgoal by (rule mergeBatches_Inl)
  subgoal by (rule recursiveMerge_split)
  subgoal by (rule mergeBatches_Inr(1))
  subgoal by (rule mergeBatches_wrapped(1))
  subgoal by (rule mergeBatches_wrapped(2))
  subgoal by (rule mergeBatches_wrapped(3))
  subgoal by (rule mergeBatches_wrapped(4))
  subgoal by (rule batchSettles_all)
  subgoal by (rule settleOrder_set)
  subgoal by (rule settleOrder_sorted)
  done

theorem recursiveMerge_batching_witness:
  "batchSize < length (replicate 321 sampleSubmission) \<and>
   map length (makeBatches (replicate 321 sampleSubmission)) = [320, 1] \<and>
   (\<exists>log r. recursiveMerge quietEnv [] keyedConfig None (replicate 321 sampleSubmission) None
              = Some (log, r) \<and> issuedCount log = 3) \<and>
   recursiveMerge failingEnv [] keyedConfig None (replicate 321 sampleSubmission) None =
     Some ([] @ batchIssues (issuedCount []) keyedConfig None None
                  (makeBatches (replicate 321 sampleSubmission))
              @ [Settled 1 (Inl (Error ''early''))],
           Inl (Error ''early'')) \<and>
   length (replicate 700 sampleSubmission) = 700 \<and>
   map length (makeBatches (replicate 700 sampleSubmission)) = [320, 320, 60] \<and>
   1 < length (replicate 12 sampleSubmission) \<and>
   length (replicate 12 sampleSubmission) \<le> batchSize \<and>
   (\<exists>log r. recursiveMerge quietEnv [] keyedConfig None (replicate 12 sampleSubmission) None
              = Some (log, r) \<and> issuedCount log = 1)"
proof -
  let ?subs = "replicate 321 sampleSubmission"
  let ?merged = "[\<lparr>user = ''Batch1'', text' = ''ok'', timestamp = 0, votes = {||},
                    debugVoteCount = None\<rparr>,
                  \<lparr>user = ''Batch2'', text' = ''ok'', timestamp = 0, votes = {||},
                    debugVoteCount = None\<rparr>]"
  let ?round = "[] @ batchIssues (issuedCount []) keyedConfig None None (makeBatches ?subs)
                  @ batchSettles quietEnv (issuedCount []) keyedConfig None None
                      (makeBatches ?subs)"
  have big: "batchSize < length ?subs"
    by (simp add: batchSize_value)
  have sizes: "map length (makeBatches ?subs) = [320, 1]"
    by (simp add: makeBatches_321)
  have merged: "mergeBatches quietEnv (issuedCount []) keyedConfig None None (makeBatches ?subs)
                  = Inr ?merged"
    using mergeBatches_321 by simp
  note split = recursiveMerge_batching [of ?subs quietEnv "[]" keyedConfig None None,
      THEN conjunct2, THEN conjunct2, THEN conjunct2, THEN mp, OF big]
  note success = split [THEN conjunct2, THEN conjunct2, THEN conjunct2, THEN conjunct2,
      THEN conjunct2, THEN conjunct2, THEN conjunct2, THEN conjunct2, THEN conjunct2,
      THEN spec, THEN mp, OF merged]
  have first: "recursiveMerge quietEnv [] keyedConfig None ?subs None =
               recursiveMerge quietEnv ?round keyedConfig None ?merged None"
    using success [THEN conjunct1] .
  have small: "1 < length ?merged \<and> length ?merged \<le> batchSize"
    by (simp add: batchSize_value)
  note single = recursiveMerge_batching [of ?merged quietEnv ?round keyedConfig None None,
      THEN conjunct2, THEN conjunct2, THEN conjunct1, THEN mp, OF small]
  have count: "issuedCount ?round = 2"
    by (simp add: issuedCount_append issuedCount_round makeBatches_321)
  obtain r where "recursiveMerge quietEnv ?round keyedConfig None ?merged None =
      Some (?round @
            [Issued (issuedCount ?round)
               (buildSystemPrompt (mergePartyName keyedConfig),
                batchPrompt keyedConfig None None ?merged),
             Settled (issuedCount ?round)
               (batchOutcome quietEnv (issuedCount ?round) keyedConfig None None ?merged)], r)"
    using single ..
  then have run: "\<exists>log r. recursiveMerge quietEnv [] keyedConfig None ?subs None
                             = Some (log, r) \<and> issuedCount log = 3"
    unfolding first using count by (simp add: issuedCount_append)
  have failed: "mergeBatches failingEnv (issuedCount []) keyedConfig None None
                  (makeBatches ?subs) = Inl (Error ''early'')"
    using mergeBatches_321_failing by simp
  note failure = recursiveMerge_batching [of ?subs failingEnv "[]" keyedConfig None None,
      THEN conjunct2, THEN conjunct2, THEN conjunct2, THEN mp, OF big,
      THEN conjunct2, THEN conjunct2, THEN conjunct2, THEN conjunct2,
      THEN conjunct2, THEN conjunct2, THEN conjunct2, THEN conjunct2, THEN conjunct1,
      THEN spec, THEN mp, OF failed, THEN conjunct1]
  have early: "recursiveMerge failingEnv [] keyedConfig None ?subs None =
     Some ([] @ batchIssues (issuedCount []) keyedConfig None None (makeBatches ?subs)
              @ [Settled 1 (Inl (Error ''early''))],
           Inl (Error ''early''))"
    using failure batchSettles_321_failing by simp
  let ?many = "replicate 700 sampleSubmission"
  have many: "batchSize < length ?many" "length ?many = 700"
    by (simp_all add: batchSize_value)
  have cut: "map length (makeBatches ?many) = [320, 320, 60]"
    using recursiveMerge_batching [of ?many quietEnv "[]" keyedConfig None None,
      THEN conjunct2, THEN conjunct2, THEN conjunct2, THEN mp, OF many(1),
      THEN conjunct2, THEN conjunct2, THEN conjunct2, THEN conjunct1, THEN mp, OF many(2)] .
  let ?few = "replicate 12 sampleSubmission"
  have few: "1 < length ?few \<and> length ?few \<le> batchSize"
    by (simp add: batchSize_value)
  obtain r' where "recursiveMerge quietEnv [] keyedConfig None ?few None =
      Some ([] @
            [Issued (issuedCount [])
               (buildSystemPrompt (mergePartyName keyedConfig),
                batchPrompt keyedConfig None None ?few),
             Settled (issuedCount [])
               (batchOutcome quietEnv (issuedCount []) keyedConfig None None ?few)], r')"
    using recursiveMerge_batching [of ?few quietEnv "[]" keyedConfig None None,
      THEN conjunct2, THEN conjunct2, THEN conjunct1, THEN mp, OF few] ..
  then have one: "\<exists>log r. recursiveMerge quietEnv [] keyedConfig None ?few None
                             = Some (log, r) \<and> issuedCount log = 1"
    by simp
  show ?thesis
    using big sizes run early many(2) cut few one by (intro conjI) simp_all
qed

text \<open>
  The claim C2 as it was stated gives each intermediate submission a singleton voter set.
  The callback builds it with \<open>votes: new Set()\<close>: for 321 submissions the two
  intermediate submissions have no voter at all.
\<close>

theorem batch_result_has_empty_voter_set:
  "batchSize < length (replicate 321 sampleSubmission) \<and>
   mergeBatches quietEnv 0 keyedConfig None None (makeBatches (replicate 321 sampleSubmission))
     = Inr [\<lparr>user = ''Batch1'', text' = ''ok'', timestamp = 0, votes = {||},
              debugVoteCount = None\<rparr>,
            \<lparr>user = ''Batch2'', text' = ''ok'', timestamp = 0, votes = {||},
              debugVoteCount = None\<rparr>] \<and>
   fcard (votes \<lparr>user = ''Batch1'', text' = ''ok'', timestamp = 0, votes = {||},
                 debugVoteCount = None\<rparr>) \<noteq> 1"
  using mergeBatches_321 by (simp add: batchSize_value fcard_fempty)

text \<open>
  C8: the batch size is at least 3; whenever more than one batch is formed there are fewer
  batches than submissions; and \<open>recursiveMerge\<close> returns on every list of submissions,
  whatever the collaborators answer.
\<close>

theorem recursiveMerge_terminates:
  "3 \<le> batchSize \<and>
   (1 < length (makeBatches subs) \<longrightarrow> length (makeBatches subs) < length subs) \<and>
   (\<exists>r. recursiveMerge w calls cfg ctx subs lastAIOutput = Some r)"
  using makeBatches_fewer [of subs] recursiveMerge_returns [of w calls cfg ctx subs lastAIOutput]
  by (simp add: batchSize_value)

theorem recursiveMerge_terminates_witness:
  "1 < length (makeBatches (replicate 321 sampleSubmission)) \<and>
   length (makeBatches (replicate 321 sampleSubmission))
     < length (replicate 321 sampleSubmission) \<and>
   (\<exists>r. recursiveMerge quietEnv [] keyedConfig None (replicate 321 sampleSubmission) None
          = Some r)"
proof -
  have "1 < length (makeBatches (replicate 321 sampleSubmission))"
    by (simp add: makeBatches_321)
  then show ?thesis
    using recursiveMerge_terminates
            [of "replicate 321 sampleSubmission" quietEnv "[]" keyedConfig None None]
    by blast
qed

end
